(* ===== verification/Prelude.thy ===== *)
theory Prelude
  imports Main "HOL-Library.Word" "HOL-Library.Sublist"
begin

text \<open>
  Shared vocabulary of the development: the machine integers and byte strings of the Rust
  sources, results and panics as values, the standard library's UTF-8 check, little-endian
  16-bit integers, and the list facts that the byte-level theories use.

  A Rust \<open>String\<close> is modelled by an Isabelle \<open>string\<close> whose characters are its UTF-8 bytes, so
  \<open>length\<close> is \<open>str::len\<close> and \<open>as_bytes\<close> only changes the element type.
\<close>

unbundle bit_operations_syntax

named_theorems wire_simps \<open>rewrites for encoded bytes: lengths, splits and round trips\<close>
named_theorems inv_intros \<open>preservation of a component's invariant by its operations\<close>

section \<open>Machine integers, results\<close>

type_synonym u8 = "8 word"
type_synonym u16 = "16 word"
type_synonym u64 = "64 word"
type_synonym bytes = "u8 list"

text \<open>An operation that may return \<open>Err e\<close> or panic has a result in \<open>'e fault + 'a\<close>.\<close>

datatype 'e fault = Error 'e | Panic

text \<open>Rust's \<open>?\<close>: go on with the value, or return the error.\<close>

definition and_then :: "'e + 'a \<Rightarrow> ('a \<Rightarrow> 'e + 'b) \<Rightarrow> 'e + 'b" where
  "and_then r f = (case r of Inl e \<Rightarrow> Inl e | Inr a \<Rightarrow> f a)"

lemma and_then_simps [simp]:
  "and_then (Inl e) f = Inl e"
  "and_then (Inr a) f = f a"
  by (simp_all add: and_then_def)

lemma and_then_Inr_iff: "and_then r f = Inr b \<longleftrightarrow> (\<exists>a. r = Inr a \<and> f a = Inr b)"
  by (cases r) auto

lemma and_then_Inl_iff:
  "and_then r f = Inl e \<longleftrightarrow> r = Inl e \<or> (\<exists>a. r = Inr a \<and> f a = Inl e)"
  by (cases r) auto

lemma if_Inl_ok_iff: "(if b then Inl e else r) = Inr a \<longleftrightarrow> \<not> b \<and> r = Inr a"
  by simp

text \<open>\<open>ok_or\<close>: an optional value as a result.\<close>

definition ok_or :: "'a option \<Rightarrow> 'e \<Rightarrow> 'e + 'a" where
  "ok_or x e = (case x of None \<Rightarrow> Inl e | Some a \<Rightarrow> Inr a)"

lemma ok_or_simps [simp]:
  "ok_or None e = Inl e"
  "ok_or (Some a) e = Inr a"
  by (simp_all add: ok_or_def)

lemma ok_or_Inr_iff [simp]: "ok_or x e = Inr a \<longleftrightarrow> x = Some a"
  by (cases x) auto

section \<open>Strings and UTF-8\<close>

definition as_bytes :: "string \<Rightarrow> bytes" where
  "as_bytes s = map (\<lambda>c. of_nat (of_char c)) s"

definition of_bytes :: "bytes \<Rightarrow> string" where
  "of_bytes bs = map (\<lambda>b. char_of (unat b)) bs"

lemma length_as_bytes [simp, wire_simps]: "length (as_bytes s) = length s"
  by (simp add: as_bytes_def)

lemma as_bytes_Nil [simp]: "as_bytes [] = []"
  by (simp add: as_bytes_def)

lemma as_bytes_append: "as_bytes (s @ t) = as_bytes s @ as_bytes t"
  by (simp add: as_bytes_def)

lemma unat_of_char_u8: "unat (of_nat (of_char c) :: u8) = of_char c"
proof -
  have "(of_char c :: nat) < 256"
    by (rule nat_of_char_less_256)
  then show ?thesis
    by (simp add: unat_of_nat)
qed

lemma of_bytes_as_bytes [simp, wire_simps]: "of_bytes (as_bytes s) = s"
  unfolding of_bytes_def as_bytes_def map_map
  by (rule map_idI) (simp add: unat_of_char_u8)

lemma of_char_u8_of_char: "(of_nat (of_char (char_of (unat b))) :: u8) = b"
proof -
  have "unat b < 256"
    using unsigned_less [of b, where 'a = nat] by simp
  then show ?thesis
    by simp
qed

lemma as_bytes_of_bytes [simp, wire_simps]: "as_bytes (of_bytes bs) = bs"
  unfolding of_bytes_def as_bytes_def map_map
  by (rule map_idI) (simp only: comp_def of_char_u8_of_char)

lemma as_bytes_inject [simp]: "as_bytes s = as_bytes t \<longleftrightarrow> s = t"
  by (metis of_bytes_as_bytes)

text \<open>
  The check of \<open>String::from_utf8\<close>: well-formed UTF-8 byte sequences (the Unicode standard's
  table of well-formed sequences, which the standard library documents).
\<close>

definition utf8_cont :: "u8 \<Rightarrow> bool" where
  "utf8_cont b \<longleftrightarrow> 0x80 \<le> b \<and> b \<le> 0xBF"

fun utf8_second :: "u8 \<Rightarrow> u8 \<Rightarrow> bool" where
  "utf8_second a b =
     (if a = 0xE0 then 0xA0 \<le> b \<and> b \<le> 0xBF
      else if a = 0xED then 0x80 \<le> b \<and> b \<le> 0x9F
      else if a = 0xF0 then 0x90 \<le> b \<and> b \<le> 0xBF
      else if a = 0xF4 then 0x80 \<le> b \<and> b \<le> 0x8F
      else utf8_cont b)"

fun valid_utf8 :: "bytes \<Rightarrow> bool" where
  "valid_utf8 [] = True"
| "valid_utf8 (a # xs) =
     (if a < 0x80 then valid_utf8 xs
      else if 0xC2 \<le> a \<and> a \<le> 0xDF then
        (case xs of b # ys \<Rightarrow> utf8_cont b \<and> valid_utf8 ys | _ \<Rightarrow> False)
      else if 0xE0 \<le> a \<and> a \<le> 0xEF then
        (case xs of b # c # ys \<Rightarrow> utf8_second a b \<and> utf8_cont c \<and> valid_utf8 ys | _ \<Rightarrow> False)
      else if 0xF0 \<le> a \<and> a \<le> 0xF4 then
        (case xs of b # c # d # ys \<Rightarrow>
           utf8_second a b \<and> utf8_cont c \<and> utf8_cont d \<and> valid_utf8 ys | _ \<Rightarrow> False)
      else False)"

declare utf8_second.simps [simp del]

definition from_utf8 :: "bytes \<Rightarrow> string option" where
  "from_utf8 bs = (if valid_utf8 bs then Some (of_bytes bs) else None)"

text \<open>The invariant of Rust's \<open>String\<close>.\<close>

definition utf8_string :: "string \<Rightarrow> bool" where
  "utf8_string s \<longleftrightarrow> valid_utf8 (as_bytes s)"

lemma from_utf8_as_bytes [wire_simps]: "utf8_string s \<Longrightarrow> from_utf8 (as_bytes s) = Some s"
  by (simp add: from_utf8_def utf8_string_def)

lemma from_utf8_SomeD: "from_utf8 bs = Some s \<Longrightarrow> utf8_string s \<and> as_bytes s = bs"
  by (auto simp: from_utf8_def utf8_string_def split: if_splits)

lemma valid_utf8_ascii: "(\<And>b. b \<in> set bs \<Longrightarrow> b < 0x80) \<Longrightarrow> valid_utf8 bs"
  by (induction bs) auto

lemma ascii_utf8: "list_all (\<lambda>c. (of_char c :: nat) < 128) s \<Longrightarrow> utf8_string s"
  unfolding utf8_string_def
  by (rule valid_utf8_ascii)
    (auto simp: as_bytes_def list_all_iff word_less_nat_alt unat_of_char_u8)

lemma utf8_string_Nil [simp]: "utf8_string []"
  by (simp add: utf8_string_def)

section \<open>Little-endian 16-bit integers\<close>

definition u16_to_le_bytes :: "u16 \<Rightarrow> bytes" where
  "u16_to_le_bytes w = [ucast w, ucast (drop_bit 8 w)]"

definition u16_from_le_bytes :: "u8 \<Rightarrow> u8 \<Rightarrow> u16" where
  "u16_from_le_bytes a b = ucast a OR push_bit 8 (ucast b)"

lemma u16_le_roundtrip [simp, wire_simps]:
  "u16_from_le_bytes (ucast w) (ucast (drop_bit 8 w)) = (w :: u16)"
  unfolding u16_from_le_bytes_def
  by (rule bit_word_eqI) (auto simp: bit_simps)

lemma length_u16_to_le_bytes [simp, wire_simps]: "length (u16_to_le_bytes w) = 2"
  by (simp add: u16_to_le_bytes_def)

lemma u16_to_le_bytes_nth [simp, wire_simps]:
  "u16_to_le_bytes w ! 0 = ucast w"
  "u16_to_le_bytes w ! Suc 0 = ucast (drop_bit 8 w)"
  by (simp_all add: u16_to_le_bytes_def)

lemma unat_of_nat_u16: "n < 65536 \<Longrightarrow> unat (of_nat n :: u16) = n"
  by (simp add: unat_of_nat)

lemma unat_u16_less: "unat (w :: u16) < 65536"
  using unsigned_less [of w, where 'a = nat] by simp

text \<open>The two header bytes that \<open>write_to\<close> computes from a payload length.\<close>

lemma u16_from_len_bytes:
  assumes "n < 65536"
  shows "unat (u16_from_le_bytes (of_nat (n AND 0xFF)) (of_nat (drop_bit 8 n AND 0xFF))) = n"
proof -
  have mask: "k AND 0xFF = take_bit 8 k" for k :: nat
    by (simp add: take_bit_eq_mask mask_eq_exp_minus_1)
  have lo: "(of_nat (n AND 0xFF) :: u8) = ucast (of_nat n :: u16)"
    unfolding mask by (rule bit_word_eqI) (auto simp: bit_simps)
  have hi: "(of_nat (drop_bit 8 n AND 0xFF) :: u8) = ucast (drop_bit 8 (of_nat n :: u16))"
    unfolding mask by (rule bit_word_eqI) (auto simp: bit_simps)
  show ?thesis
    unfolding lo hi using assms by (simp add: unat_of_nat)
qed

section \<open>List facts\<close>

lemma take_drop_mid: "drop (length xs) (xs @ ys @ zs) = ys @ zs"
  by simp

lemma nth_append_mid: "i < length ys \<Longrightarrow> (xs @ ys @ zs) ! (length xs + i) = ys ! i"
  by (simp add: nth_append)

lemma prefix_same_length: "prefix xs ys \<Longrightarrow> length xs = length ys \<Longrightarrow> xs = ys"
  by (auto simp: prefix_def)

text \<open>In a history, oldest entry first: some entry satisfies \<open>Q\<close>, and all that came after it \<open>R\<close>.\<close>

definition since :: "('a \<Rightarrow> bool) \<Rightarrow> ('a \<Rightarrow> bool) \<Rightarrow> 'a list \<Rightarrow> bool" where
  "since Q R xs \<longleftrightarrow> (\<exists>earlier x later. xs = earlier @ x # later \<and> Q x \<and> list_all R later)"

lemma since_Nil [simp]: "\<not> since Q R []"
  by (simp add: since_def)

lemma since_snoc [simp]: "since Q R (xs @ [x]) \<longleftrightarrow> Q x \<or> (R x \<and> since Q R xs)"
proof
  assume "since Q R (xs @ [x])"
  then obtain e y l where l: "xs @ [x] = e @ y # l" "Q y" "list_all R l"
    by (auto simp: since_def)
  then show "Q x \<or> (R x \<and> since Q R xs)"
    by (cases l rule: rev_cases) (auto simp: since_def)
next
  assume "Q x \<or> (R x \<and> since Q R xs)"
  then show "since Q R (xs @ [x])"
  proof
    assume "Q x"
    then show ?thesis unfolding since_def by (intro exI [of _ xs] exI [of _ x] exI [of _ "[]"]) simp
  next
    assume r: "R x \<and> since Q R xs"
    then obtain e y l where "xs = e @ y # l" "Q y" "list_all R l"
      by (auto simp: since_def)
    with r show ?thesis
      unfolding since_def by (intro exI [of _ e] exI [of _ y] exI [of _ "l @ [x]"]) simp
  qed
qed

section \<open>Splitting text\<close>

text \<open>\<open>str::split\<close> at a character: never empty, and the pieces may be.\<close>

fun split_on :: "char \<Rightarrow> string \<Rightarrow> string list" where
  "split_on c [] = [[]]"
| "split_on c (x # xs) =
     (if x = c then [] # split_on c xs
      else (case split_on c xs of p # ps \<Rightarrow> (x # p) # ps | [] \<Rightarrow> [[x]]))"

end
