(* ===== verification/Protocol.thy ===== *)
theory Protocol
  imports Prelude
begin

text \<open>
  \<^verbatim>\<open>crates/common/src/protocol.rs\<close>: the frames of the control and data planes, their payload
  encoding, and the functions that write a frame to a stream and read one back.

  A stream that is read is the list of bytes that will still arrive and how it ends; a stream
  that is written is the list of bytes accepted so far and how many more the peer will take.
  A slice or an index out of range panics in Rust, and does so here: \<open>decode\<close> and \<open>read_from\<close>
  return \<open>Inl Panic\<close> there.

  \<open>serde_json\<close> is not part of the repository: the record \<open>json_codec\<close> stands for its
  \<open>to_vec\<close> and \<open>from_slice\<close> at the six structs the protocol serialises, and \<open>json_codec_ok\<close>
  is what its documentation promises of them.
\<close>

section \<open>Tags, codes and limits\<close>

definition DATA_AUTH_HELLO :: u8 where "DATA_AUTH_HELLO = 0x06"
definition DATA_AUTH_NONCE :: u8 where "DATA_AUTH_NONCE = 0x01"
definition DATA_AUTH_PROOF :: u8 where "DATA_AUTH_PROOF = 0x02"
definition DATA_AUTH_OK :: u8 where "DATA_AUTH_OK = 0x03"
definition DATA_AUTH_ERR :: u8 where "DATA_AUTH_ERR = 0x04"
definition DATA_OPEN :: u8 where "DATA_OPEN = 0x05"
definition CONTROL_HELLO :: u8 where "CONTROL_HELLO = 0x10"
definition CONTROL_HELLO_OK :: u8 where "CONTROL_HELLO_OK = 0x11"
definition CONTROL_REGISTER :: u8 where "CONTROL_REGISTER = 0x12"
definition CONTROL_REGISTER_OK :: u8 where "CONTROL_REGISTER_OK = 0x13"
definition CONTROL_SUBSCRIBE :: u8 where "CONTROL_SUBSCRIBE = 0x14"
definition CONTROL_SUBSCRIBE_OK :: u8 where "CONTROL_SUBSCRIBE_OK = 0x15"
definition CONTROL_HEARTBEAT :: u8 where "CONTROL_HEARTBEAT = 0x16"
definition CONTROL_ERROR :: u8 where "CONTROL_ERROR = 0x1F"

lemmas tag_defs = DATA_AUTH_HELLO_def DATA_AUTH_NONCE_def DATA_AUTH_PROOF_def DATA_AUTH_OK_def
  DATA_AUTH_ERR_def DATA_OPEN_def CONTROL_HELLO_def CONTROL_HELLO_OK_def CONTROL_REGISTER_def
  CONTROL_REGISTER_OK_def CONTROL_SUBSCRIBE_def CONTROL_SUBSCRIBE_OK_def CONTROL_HEARTBEAT_def
  CONTROL_ERROR_def

definition AUTH_ERR_OK :: u8 where "AUTH_ERR_OK = 0"
definition AUTH_ERR_BAD_PROOF :: u8 where "AUTH_ERR_BAD_PROOF = 1"
definition AUTH_ERR_NO_NONCE :: u8 where "AUTH_ERR_NO_NONCE = 2"
definition AUTH_ERR_TIMEOUT :: u8 where "AUTH_ERR_TIMEOUT = 3"
definition AUTH_ERR_SHUTDOWN :: u8 where "AUTH_ERR_SHUTDOWN = 4"
definition AUTH_ERR_WRONG_SERVICE :: u8 where "AUTH_ERR_WRONG_SERVICE = 5"

definition U16_MAX :: nat where "U16_MAX = 65535"

definition MAX_FRAME_PAYLOAD :: nat where "MAX_FRAME_PAYLOAD = 32 * 1024"

datatype io_error = UnexpectedEof | InvalidData | ConnectionLost

datatype frame_error =
    Io io_error
  | ShortHeader
  | ShortPayload nat nat
  | TooLong nat nat
  | UnknownTag u8
  | Utf8
  | AuthFailed u8 string

section \<open>Frames\<close>

record auth_nonce =
  nonce :: bytes

record auth_proof =
  mac :: bytes

record auth_err =
  ae_code :: u8
  ae_reason :: string

record hello =
  group_token :: string
  client_info :: string

record hello_ok =
  session_id :: u64

record register =
  reg_service :: string

record register_ok =
  regok_service :: string

record subscribe =
  sub_service :: string

record subscribe_ok =
  subok_service :: string
  provider_node_id :: "string option"
  relay_required :: bool

datatype frame =
    AuthHello
  | AuthNonce auth_nonce
  | AuthProof auth_proof
  | AuthOk
  | AuthErr auth_err
  | DataOpen (target_service: string) (target_provider: string)
      (consumer_node_id: string) (open_proof: bytes)
  | Hello hello
  | HelloOk hello_ok
  | Register register
  | RegisterOk register_ok
  | Subscribe subscribe
  | SubscribeOk subscribe_ok
  | Heartbeat
  | ControlError u16 string

fun tag :: "frame \<Rightarrow> u8" where
  "tag AuthHello = DATA_AUTH_HELLO"
| "tag (AuthNonce _) = DATA_AUTH_NONCE"
| "tag (AuthProof _) = DATA_AUTH_PROOF"
| "tag AuthOk = DATA_AUTH_OK"
| "tag (AuthErr _) = DATA_AUTH_ERR"
| "tag (DataOpen _ _ _ _) = DATA_OPEN"
| "tag (Hello _) = CONTROL_HELLO"
| "tag (HelloOk _) = CONTROL_HELLO_OK"
| "tag (Register _) = CONTROL_REGISTER"
| "tag (RegisterOk _) = CONTROL_REGISTER_OK"
| "tag (Subscribe _) = CONTROL_SUBSCRIBE"
| "tag (SubscribeOk _) = CONTROL_SUBSCRIBE_OK"
| "tag Heartbeat = CONTROL_HEARTBEAT"
| "tag (ControlError _ _) = CONTROL_ERROR"

text \<open>The struct types hold 32-byte arrays and UTF-8 strings.\<close>

fun frame_wf :: "frame \<Rightarrow> bool" where
  "frame_wf (AuthNonce a) \<longleftrightarrow> length (nonce a) = 32"
| "frame_wf (AuthProof p) \<longleftrightarrow> length (mac p) = 32"
| "frame_wf (AuthErr e) \<longleftrightarrow> utf8_string (ae_reason e)"
| "frame_wf (DataOpen s p c pr) \<longleftrightarrow>
     utf8_string s \<and> utf8_string p \<and> utf8_string c \<and> length pr = 32"
| "frame_wf (Hello h) \<longleftrightarrow> utf8_string (group_token h) \<and> utf8_string (client_info h)"
| "frame_wf (HelloOk h) \<longleftrightarrow> True"
| "frame_wf (Register r) \<longleftrightarrow> utf8_string (reg_service r)"
| "frame_wf (RegisterOk r) \<longleftrightarrow> utf8_string (regok_service r)"
| "frame_wf (Subscribe s) \<longleftrightarrow> utf8_string (sub_service s)"
| "frame_wf (SubscribeOk s) \<longleftrightarrow>
     utf8_string (subok_service s) \<and> pred_option utf8_string (provider_node_id s)"
| "frame_wf (ControlError c r) \<longleftrightarrow> utf8_string r"
| "frame_wf AuthHello \<longleftrightarrow> True"
| "frame_wf AuthOk \<longleftrightarrow> True"
| "frame_wf Heartbeat \<longleftrightarrow> True"

section \<open>The JSON codec\<close>

record json_codec =
  hello_to_vec :: "hello \<Rightarrow> bytes option"
  hello_from_slice :: "bytes \<Rightarrow> hello option"
  hello_ok_to_vec :: "hello_ok \<Rightarrow> bytes option"
  hello_ok_from_slice :: "bytes \<Rightarrow> hello_ok option"
  register_to_vec :: "register \<Rightarrow> bytes option"
  register_from_slice :: "bytes \<Rightarrow> register option"
  register_ok_to_vec :: "register_ok \<Rightarrow> bytes option"
  register_ok_from_slice :: "bytes \<Rightarrow> register_ok option"
  subscribe_to_vec :: "subscribe \<Rightarrow> bytes option"
  subscribe_from_slice :: "bytes \<Rightarrow> subscribe option"
  subscribe_ok_to_vec :: "subscribe_ok \<Rightarrow> bytes option"
  subscribe_ok_from_slice :: "bytes \<Rightarrow> subscribe_ok option"

definition codec_ok :: "('a \<Rightarrow> bytes option) \<Rightarrow> (bytes \<Rightarrow> 'a option) \<Rightarrow> bool" where
  "codec_ok ser de \<longleftrightarrow> (\<forall>v bs. ser v = Some bs \<longrightarrow> de bs = Some v)"

definition json_codec_ok :: "json_codec \<Rightarrow> bool" where
  "json_codec_ok js \<longleftrightarrow>
     codec_ok (hello_to_vec js) (hello_from_slice js)
     \<and> codec_ok (hello_ok_to_vec js) (hello_ok_from_slice js)
     \<and> codec_ok (register_to_vec js) (register_from_slice js)
     \<and> codec_ok (register_ok_to_vec js) (register_ok_from_slice js)
     \<and> codec_ok (subscribe_to_vec js) (subscribe_from_slice js)
     \<and> codec_ok (subscribe_ok_to_vec js) (subscribe_ok_from_slice js)"

text \<open>Besides, the strings that \<open>from_slice\<close> returns are values of \<open>String\<close>, that is UTF-8.\<close>

definition json_typed :: "json_codec \<Rightarrow> bool" where
  "json_typed js \<longleftrightarrow>
     (\<forall>bs v. hello_from_slice js bs = Some v \<longrightarrow> frame_wf (Hello v))
     \<and> (\<forall>bs v. register_from_slice js bs = Some v \<longrightarrow> frame_wf (Register v))
     \<and> (\<forall>bs v. register_ok_from_slice js bs = Some v \<longrightarrow> frame_wf (RegisterOk v))
     \<and> (\<forall>bs v. subscribe_from_slice js bs = Some v \<longrightarrow> frame_wf (Subscribe v))
     \<and> (\<forall>bs v. subscribe_ok_from_slice js bs = Some v \<longrightarrow> frame_wf (SubscribeOk v))"

definition write_json :: "('a \<Rightarrow> bytes option) \<Rightarrow> 'a \<Rightarrow> bytes \<Rightarrow> frame_error + bytes" where
  "write_json to_vec v out =
     and_then (ok_or (to_vec v) (Io InvalidData)) (\<lambda>bs.
       if length bs > U16_MAX then Inl (TooLong (length bs) U16_MAX) else Inr (out @ bs))"

definition read_json :: "(bytes \<Rightarrow> 'a option) \<Rightarrow> bytes \<Rightarrow> frame_error fault + 'a" where
  "read_json from_slice cur = ok_or (from_slice cur) (Error (Io InvalidData))"

section \<open>Encoding and decoding a payload\<close>

text \<open>One length-prefixed field of \<open>DataOpen\<close>: \<open>[len: u16 LE][bytes]\<close>.\<close>

definition put_field :: "string \<Rightarrow> bytes \<Rightarrow> frame_error + bytes" where
  "put_field s out =
     (let bs = as_bytes s in
      if length bs > U16_MAX then Inl (TooLong (length bs) U16_MAX)
      else Inr (out @ u16_to_le_bytes (of_nat (length bs)) @ bs))"

fun encode_payload :: "json_codec \<Rightarrow> frame \<Rightarrow> frame_error + bytes" where
  "encode_payload js AuthHello = Inr []"
| "encode_payload js (AuthNonce a) = Inr (nonce a)"
| "encode_payload js (AuthProof p) = Inr (mac p)"
| "encode_payload js AuthOk = Inr []"
| "encode_payload js (AuthErr e) = Inr (ae_code e # as_bytes (ae_reason e))"
| "encode_payload js (DataOpen svc provider consumer pr) =
     and_then (put_field svc []) (\<lambda>out.
     and_then (put_field provider out) (\<lambda>out.
     and_then (put_field consumer out) (\<lambda>out. Inr (out @ pr))))"
| "encode_payload js (Hello h) = write_json (hello_to_vec js) h []"
| "encode_payload js (HelloOk h) = write_json (hello_ok_to_vec js) h []"
| "encode_payload js (Register r) = write_json (register_to_vec js) r []"
| "encode_payload js (RegisterOk r) = write_json (register_ok_to_vec js) r []"
| "encode_payload js (Subscribe s) = write_json (subscribe_to_vec js) s []"
| "encode_payload js (SubscribeOk s) = write_json (subscribe_ok_to_vec js) s []"
| "encode_payload js Heartbeat = Inr []"
| "encode_payload js (ControlError code reason) = Inr (u16_to_le_bytes code @ as_bytes reason)"

text \<open>\<open>&payload[a..b]\<close>, \<open>payload[i]\<close> and \<open>String::from_utf8\<close> with their failures.\<close>

definition slice :: "bytes \<Rightarrow> nat \<Rightarrow> nat \<Rightarrow> frame_error fault + bytes" where
  "slice p a b = (if a \<le> b \<and> b \<le> length p then Inr (take (b - a) (drop a p)) else Inl Panic)"

definition u16_at :: "bytes \<Rightarrow> nat \<Rightarrow> frame_error fault + nat" where
  "u16_at p i =
     (if i + 1 < length p then Inr (unat (u16_from_le_bytes (p ! i) (p ! (i + 1))))
      else Inl Panic)"

definition utf8_field :: "bytes \<Rightarrow> frame_error fault + string" where
  "utf8_field bs = ok_or (from_utf8 bs) (Error Utf8)"

definition decode_data_open :: "bytes \<Rightarrow> frame_error fault + frame" where
  "decode_data_open payload =
     (if length payload < 2 then Inl (Error (ShortPayload 2 (length payload)))
      else
        and_then (u16_at payload 0) (\<lambda>svc_len.
        let need_min = 2 + svc_len + 2 + 2 + 32 in
        if length payload < need_min then Inl (Error (ShortPayload need_min (length payload)))
        else
          and_then (and_then (slice payload 2 (2 + svc_len)) utf8_field) (\<lambda>svc.
          and_then (u16_at payload (2 + svc_len)) (\<lambda>prov_len.
          let prov_start = 2 + svc_len + 2; prov_end = prov_start + prov_len in
          and_then (and_then (slice payload prov_start prov_end) utf8_field) (\<lambda>provider.
          and_then (u16_at payload prov_end) (\<lambda>cons_len.
          let cons_start = prov_end + 2; cons_end = cons_start + cons_len;
              need_with_cons = cons_end + 32 in
          if length payload < need_with_cons
          then Inl (Error (ShortPayload need_with_cons (length payload)))
          else
            and_then (and_then (slice payload cons_start cons_end) utf8_field) (\<lambda>consumer.
            and_then (slice payload cons_end (cons_end + 32)) (\<lambda>proof.
            Inr (DataOpen svc provider consumer proof)))))))))"

definition array32 :: "bytes \<Rightarrow> frame_error fault + bytes" where
  "array32 payload =
     (if length payload = 32 then Inr payload
      else Inl (Error (ShortPayload 32 (length payload))))"

definition decode :: "json_codec \<Rightarrow> u8 \<Rightarrow> bytes \<Rightarrow> frame_error fault + frame" where
  "decode js t payload =
     (if t = DATA_AUTH_HELLO then
        (if payload \<noteq> [] then Inl (Error (ShortPayload 0 (length payload))) else Inr AuthHello)
      else if t = DATA_AUTH_NONCE then
        and_then (array32 payload) (\<lambda>n. Inr (AuthNonce \<lparr>nonce = n\<rparr>))
      else if t = DATA_AUTH_PROOF then
        and_then (array32 payload) (\<lambda>m. Inr (AuthProof \<lparr>mac = m\<rparr>))
      else if t = DATA_AUTH_OK then Inr AuthOk
      else if t = DATA_AUTH_ERR then
        (case payload of
           [] \<Rightarrow> Inl (Error (ShortPayload 1 0))
         | code # rest \<Rightarrow>
             and_then (utf8_field rest) (\<lambda>reason.
             Inr (AuthErr \<lparr>ae_code = code, ae_reason = reason\<rparr>)))
      else if t = DATA_OPEN then decode_data_open payload
      else if t = CONTROL_HELLO then
        and_then (read_json (hello_from_slice js) payload) (\<lambda>h. Inr (Hello h))
      else if t = CONTROL_HELLO_OK then
        and_then (read_json (hello_ok_from_slice js) payload) (\<lambda>h. Inr (HelloOk h))
      else if t = CONTROL_REGISTER then
        and_then (read_json (register_from_slice js) payload) (\<lambda>r. Inr (Register r))
      else if t = CONTROL_REGISTER_OK then
        and_then (read_json (register_ok_from_slice js) payload) (\<lambda>r. Inr (RegisterOk r))
      else if t = CONTROL_SUBSCRIBE then
        and_then (read_json (subscribe_from_slice js) payload) (\<lambda>s. Inr (Subscribe s))
      else if t = CONTROL_SUBSCRIBE_OK then
        and_then (read_json (subscribe_ok_from_slice js) payload) (\<lambda>s. Inr (SubscribeOk s))
      else if t = CONTROL_HEARTBEAT then Inr Heartbeat
      else if t = CONTROL_ERROR then
        (if length payload < 2 then Inl (Error (ShortPayload 2 (length payload)))
         else
           and_then (u16_at payload 0) (\<lambda>_.
           and_then (and_then (slice payload 2 (length payload)) utf8_field) (\<lambda>reason.
           Inr (ControlError (u16_from_le_bytes (payload ! 0) (payload ! 1)) reason))))
      else Inl (Error (UnknownTag t)))"

section \<open>Streams\<close>

datatype stream_end = Eof | Lost

record reader =
  r_in :: bytes
  r_end :: stream_end

record writer =
  w_out :: bytes
  w_budget :: "nat option"

text \<open>
  \<open>read_exact\<close> fills the whole buffer or fails; what had arrived is lost then. \<open>write_all\<close>
  writes everything, or the prefix the peer still takes.
\<close>

definition read_exact :: "nat \<Rightarrow> reader \<Rightarrow> (io_error + bytes) \<times> reader" where
  "read_exact n r =
     (if n \<le> length (r_in r) then (Inr (take n (r_in r)), r\<lparr>r_in := drop n (r_in r)\<rparr>)
      else (Inl (case r_end r of Eof \<Rightarrow> UnexpectedEof | Lost \<Rightarrow> ConnectionLost), r\<lparr>r_in := []\<rparr>))"

definition write_all :: "bytes \<Rightarrow> writer \<Rightarrow> (io_error + unit) \<times> writer" where
  "write_all bs w =
     (case w_budget w of
        None \<Rightarrow> (Inr (), w\<lparr>w_out := w_out w @ bs\<rparr>)
      | Some b \<Rightarrow>
          if length bs \<le> b
          then (Inr (), w\<lparr>w_out := w_out w @ bs, w_budget := Some (b - length bs)\<rparr>)
          else (Inl ConnectionLost, w\<lparr>w_out := w_out w @ take b bs, w_budget := Some 0\<rparr>))"

text \<open>
  The streams do not buffer what is written: when \<open>write_all\<close> has returned, the bytes are with the
  stream, and \<open>flush\<close> has nothing left to do.
\<close>

definition flush :: "writer \<Rightarrow> (io_error + unit) \<times> writer" where
  "flush w = (Inr (), w)"

lemma flush_done [simp]: "flush w = (Inr (), w)"
  by (simp add: flush_def)

definition frame_head :: "u8 \<Rightarrow> nat \<Rightarrow> bytes" where
  "frame_head t n = [t, of_nat (n AND 0xFF), of_nat (drop_bit 8 n AND 0xFF)]"

definition write_to :: "json_codec \<Rightarrow> frame \<Rightarrow> writer \<Rightarrow> (frame_error + unit) \<times> writer" where
  "write_to js f w =
     (case encode_payload js f of
        Inl e \<Rightarrow> (Inl e, w)
      | Inr payload \<Rightarrow>
          if length payload > MAX_FRAME_PAYLOAD
          then (Inl (TooLong (length payload) MAX_FRAME_PAYLOAD), w)
          else
            (case write_all (frame_head (tag f) (length payload)) w of
               (Inl e, w') \<Rightarrow> (Inl (Io e), w')
             | (Inr _, w') \<Rightarrow>
                 if payload \<noteq> [] then
                   (case write_all payload w' of
                      (Inl e, w'') \<Rightarrow> (Inl (Io e), w'')
                    | (Inr _, w'') \<Rightarrow> (Inr (), w''))
                 else (Inr (), w')))"

definition read_from :: "json_codec \<Rightarrow> reader \<Rightarrow> (frame_error fault + frame) \<times> reader" where
  "read_from js r =
     (case read_exact 3 r of
        (Inl UnexpectedEof, r') \<Rightarrow> (Inl (Error ShortHeader), r')
      | (Inl e, r') \<Rightarrow> (Inl (Error (Io e)), r')
      | (Inr head, r') \<Rightarrow>
          let t = head ! 0; len = unat (u16_from_le_bytes (head ! 1) (head ! 2)) in
          if len > MAX_FRAME_PAYLOAD
          then (Inl (Error (TooLong len MAX_FRAME_PAYLOAD)), r')
          else if len > 0 then
            (case read_exact len r' of
               (Inl UnexpectedEof, r'') \<Rightarrow> (Inl (Error (ShortPayload len 0)), r'')
             | (Inl e, r'') \<Rightarrow> (Inl (Error (Io e)), r'')
             | (Inr payload, r'') \<Rightarrow> (decode js t payload, r''))
          else (decode js t [], r'))"

definition decode_from_bytes :: "json_codec \<Rightarrow> bytes \<Rightarrow> frame_error fault + frame" where
  "decode_from_bytes js buf =
     (if length buf < 3 then Inl (Error ShortHeader)
      else
        let t = buf ! 0; len = unat (u16_from_le_bytes (buf ! 1) (buf ! 2)) in
        if length buf < 3 + len then Inl (Error (ShortPayload len (length buf - 3)))
        else and_then (slice buf 3 (3 + len)) (\<lambda>payload. decode js t payload))"

section \<open>Notions used in the statements\<close>

text \<open>The bytes of one length-prefixed field, and of one frame.\<close>

definition field :: "string \<Rightarrow> bytes" where
  "field s = u16_to_le_bytes (of_nat (length s)) @ as_bytes s"

definition wire :: "json_codec \<Rightarrow> frame \<Rightarrow> bytes" where
  "wire js f = (case encode_payload js f of
     Inr payload \<Rightarrow> frame_head (tag f) (length payload) @ payload | Inl _ \<Rightarrow> [])"

text \<open>Several frames on one stream.\<close>

fun send_all :: "('f \<Rightarrow> 'w \<Rightarrow> ('e + unit) \<times> 'w) \<Rightarrow> 'f list \<Rightarrow> 'w \<Rightarrow> ('e + unit) \<times> 'w" where
  "send_all send [] w = (Inr (), w)"
| "send_all send (f # fs) w =
     (case send f w of (Inl e, w') \<Rightarrow> (Inl e, w') | (Inr _, w') \<Rightarrow> send_all send fs w')"

fun recv_n :: "('r \<Rightarrow> ('e + 'f) \<times> 'r) \<Rightarrow> nat \<Rightarrow> 'r \<Rightarrow> ('e + 'f list) \<times> 'r" where
  "recv_n recv 0 r = (Inr [], r)"
| "recv_n recv (Suc n) r =
     (case recv r of
        (Inl e, r') \<Rightarrow> (Inl e, r')
      | (Inr f, r') \<Rightarrow>
          (case recv_n recv n r' of
             (Inl e, r'') \<Rightarrow> (Inl e, r'')
           | (Inr fs, r'') \<Rightarrow> (Inr (f # fs), r'')))"

text \<open>
  The lengths that a \<open>DataOpen\<close> payload states for its service and provider fields, and three facts
  about such a payload: the service field is accepted; the provider field ends after the payload; the
  provider field is UTF-8 and lies within the payload, but the two bytes of the consumer's length
  do not.
\<close>

definition svc_len :: "bytes \<Rightarrow> nat" where
  "svc_len p = unat (u16_from_le_bytes (p ! 0) (p ! 1))"

definition prov_len :: "bytes \<Rightarrow> nat" where
  "prov_len p = unat (u16_from_le_bytes (p ! (2 + svc_len p)) (p ! (3 + svc_len p)))"

definition service_accepted :: "bytes \<Rightarrow> bool" where
  "service_accepted p \<longleftrightarrow>
     2 \<le> length p \<and> 38 + svc_len p \<le> length p \<and> valid_utf8 (take (svc_len p) (drop 2 p))"

definition provider_past_end :: "bytes \<Rightarrow> bool" where
  "provider_past_end p \<longleftrightarrow> length p < 4 + svc_len p + prov_len p"

definition consumer_length_past_end :: "bytes \<Rightarrow> bool" where
  "consumer_length_past_end p \<longleftrightarrow>
     4 + svc_len p + prov_len p \<le> length p \<and> length p < 6 + svc_len p + prov_len p \<and>
     valid_utf8 (take (prov_len p) (drop (4 + svc_len p) p))"

lemmas open_panic_defs = svc_len_def prov_len_def service_accepted_def provider_past_end_def consumer_length_past_end_def

section \<open>A concrete codec\<close>

text \<open>
  An executable codec that satisfies \<open>json_codec_ok\<close>, used to show that the statements with
  that hypothesis have instances: a string is a list of marked bytes and an end mark, a number
  is its list of bits.
\<close>

definition put_str :: "string \<Rightarrow> bytes" where
  "put_str s = concat (map (\<lambda>c. [1, of_nat (of_char c)]) s) @ [0]"

fun get_str :: "bytes \<Rightarrow> (string \<times> bytes) option" where
  "get_str [] = None"
| "get_str [t] = (if t = 0 then Some ([], []) else None)"
| "get_str (t # b # xs) =
     (if t = 0 then Some ([], b # xs)
      else map_option (\<lambda>(s, r). (char_of (unat b) # s, r)) (get_str xs))"

definition put_u64 :: "u64 \<Rightarrow> bytes" where
  "put_u64 w = map (\<lambda>i. of_bool (bit w i)) [0..<64]"

definition get_u64 :: "bytes \<Rightarrow> u64" where
  "get_u64 bs = horner_sum of_bool 2 (map (\<lambda>b. b = 1) bs)"

definition marked_codec :: json_codec where
  "marked_codec = \<lparr>
     hello_to_vec = (\<lambda>h. Some (put_str (group_token h) @ put_str (client_info h))),
     hello_from_slice = (\<lambda>bs. case get_str bs of None \<Rightarrow> None | Some (a, r) \<Rightarrow>
        map_option (\<lambda>(b, _). \<lparr>group_token = a, client_info = b\<rparr>) (get_str r)),
     hello_ok_to_vec = (\<lambda>h. Some (put_u64 (session_id h))),
     hello_ok_from_slice = (\<lambda>bs. Some \<lparr>session_id = get_u64 bs\<rparr>),
     register_to_vec = (\<lambda>r. Some (put_str (reg_service r))),
     register_from_slice = (\<lambda>bs. map_option (\<lambda>(a, _). \<lparr>reg_service = a\<rparr>) (get_str bs)),
     register_ok_to_vec = (\<lambda>r. Some (put_str (regok_service r))),
     register_ok_from_slice = (\<lambda>bs. map_option (\<lambda>(a, _). \<lparr>regok_service = a\<rparr>) (get_str bs)),
     subscribe_to_vec = (\<lambda>s. Some (put_str (sub_service s))),
     subscribe_from_slice = (\<lambda>bs. map_option (\<lambda>(a, _). \<lparr>sub_service = a\<rparr>) (get_str bs)),
     subscribe_ok_to_vec = (\<lambda>s. Some (of_bool (relay_required s)
        # (case provider_node_id s of None \<Rightarrow> [0] | Some p \<Rightarrow> 1 # put_str p)
        @ put_str (subok_service s))),
     subscribe_ok_from_slice = (\<lambda>bs. case bs of
          rel # some # r \<Rightarrow>
            (if some = 0 then
               map_option (\<lambda>(s, _). \<lparr>subok_service = s, provider_node_id = None,
                 relay_required = (rel = 1)\<rparr>) (get_str r)
             else (case get_str r of None \<Rightarrow> None | Some (p, r') \<Rightarrow>
               map_option (\<lambda>(s, _). \<lparr>subok_service = s, provider_node_id = Some p,
                 relay_required = (rel = 1)\<rparr>) (get_str r')))
        | _ \<Rightarrow> None)\<rparr>"

text \<open>The same codec with the check that \<open>from_slice\<close> makes on strings.\<close>

definition checked :: "('a \<Rightarrow> frame) \<Rightarrow> (bytes \<Rightarrow> 'a option) \<Rightarrow> bytes \<Rightarrow> 'a option" where
  "checked mk de bs = (case de bs of Some v \<Rightarrow> if frame_wf (mk v) then Some v else None | None \<Rightarrow> None)"

definition checked_codec :: json_codec where
  "checked_codec = marked_codec\<lparr>
     hello_from_slice := checked Hello (hello_from_slice marked_codec),
     register_from_slice := checked Register (register_from_slice marked_codec),
     register_ok_from_slice := checked RegisterOk (register_ok_from_slice marked_codec),
     subscribe_from_slice := checked Subscribe (subscribe_from_slice marked_codec),
     subscribe_ok_from_slice := checked SubscribeOk (subscribe_ok_from_slice marked_codec)\<rparr>"

section \<open>Slices and fields\<close>

lemma slice_append [wire_simps]:
  assumes "a = length xs" and "b = length xs + length ys"
  shows "slice (xs @ ys @ zs) a b = Inr ys"
  using assms by (simp add: slice_def)

lemma u16_at_append [wire_simps]:
  assumes "i = length xs"
  shows "u16_at (xs @ u16_to_le_bytes w @ zs) i = Inr (unat w)"
  using assms by (simp add: u16_at_def u16_to_le_bytes_def nth_append)

lemma utf8_field_as_bytes [wire_simps]: "utf8_string s \<Longrightarrow> utf8_field (as_bytes s) = Inr s"
  by (simp add: utf8_field_def from_utf8_as_bytes)

lemma utf8_field_no_panic [simp]: "utf8_field bs \<noteq> Inl Panic"
  by (cases "from_utf8 bs") (auto simp: utf8_field_def)

lemma put_field_iff:
  "put_field s out = Inr out' \<longleftrightarrow> length s \<le> U16_MAX \<and> out' = out @ field s"
  by (auto simp: put_field_def field_def Let_def)

lemma encode_data_open_iff:
  "encode_payload js (DataOpen s p c pr) = Inr payload \<longleftrightarrow>
     length s \<le> U16_MAX \<and> length p \<le> U16_MAX \<and> length c \<le> U16_MAX
     \<and> payload = field s @ field p @ field c @ pr"
  by (auto simp: and_then_Inr_iff put_field_iff)

text \<open>A field behind any bytes is found there.\<close>

lemma field_at:
  assumes "length s \<le> U16_MAX" and "payload = xs @ field s @ zs" and "i = length xs"
  shows "u16_at payload i = Inr (length s)" and "slice payload (i + 2) (i + 2 + length s) = Inr (as_bytes s)"
proof -
  have "unat (of_nat (length s) :: u16) = length s"
    using assms(1) by (simp add: U16_MAX_def unat_of_nat_u16)
  then show "u16_at payload i = Inr (length s)"
    using u16_at_append [OF assms(3), of "of_nat (length s)" "as_bytes s @ zs"] by (simp add: assms(2) field_def)
  show "slice payload (i + 2) (i + 2 + length s) = Inr (as_bytes s)"
    using slice_append [of "i + 2" "xs @ u16_to_le_bytes (of_nat (length s))" "i + 2 + length s" "as_bytes s" zs]
    by (simp add: assms(2,3) field_def)
qed

lemma length_field [simp]: "length (field s) = 2 + length s"
  by (simp add: field_def)

lemma decode_data_open_encoded:
  assumes "frame_wf (DataOpen s p c pr)"
    and "length s \<le> U16_MAX" and "length p \<le> U16_MAX" and "length c \<le> U16_MAX"
  shows "decode_data_open (field s @ field p @ field c @ pr) = Inr (DataOpen s p c pr)"
proof -
  define payload where "payload = field s @ field p @ field c @ pr"
  let ?p = "2 + length s" and ?c = "2 + length s + 2 + length p"
  have utf: "utf8_string s" "utf8_string p" "utf8_string c" and pr: "length pr = 32"
    using assms(1) by auto
  have svc: "u16_at payload 0 = Inr (length s)" "slice payload 2 (2 + length s) = Inr (as_bytes s)"
    using field_at [OF assms(2), of payload "[]" "field p @ field c @ pr" 0]
    by (simp_all add: payload_def numeral_2_eq_2)
  have prov: "u16_at payload ?p = Inr (length p)" "slice payload (?p + 2) (?p + 2 + length p) = Inr (as_bytes p)"
    using field_at [OF assms(3), of payload "field s" "field c @ pr" ?p] by (simp_all add: payload_def)
  have cons: "u16_at payload ?c = Inr (length c)" "slice payload (?c + 2) (?c + 2 + length c) = Inr (as_bytes c)"
    using field_at [OF assms(4), of payload "field s @ field p" pr ?c] by (simp_all add: payload_def)
  have mac: "slice payload (?c + 2 + length c) (?c + 2 + length c + 32) = Inr pr"
    using slice_append [of "?c + 2 + length c" "field s @ field p @ field c" "?c + 2 + length c + 32" pr "[]"] pr
    by (simp add: payload_def)
  have "length payload = ?c + 2 + length c + 32"
    using pr by (simp add: payload_def)
  then have "decode_data_open payload = Inr (DataOpen s p c pr)"
    unfolding decode_data_open_def Let_def
    by (simp only: svc prov cons mac and_then_simps utf8_field_as_bytes utf) simp
  then show ?thesis
    by (simp add: payload_def)
qed

section \<open>One frame\<close>

lemma write_json_iff:
  "write_json ser v [] = Inr payload \<longleftrightarrow> ser v = Some payload \<and> length payload \<le> U16_MAX"
  by (cases "ser v") (auto simp: write_json_def)

lemma decode_tag_dispatch [simp]:
  "decode js DATA_AUTH_HELLO [] = Inr AuthHello"
  "decode js DATA_AUTH_NONCE p = and_then (array32 p) (\<lambda>n. Inr (AuthNonce \<lparr>nonce = n\<rparr>))"
  "decode js DATA_AUTH_PROOF p = and_then (array32 p) (\<lambda>m. Inr (AuthProof \<lparr>mac = m\<rparr>))"
  "decode js DATA_AUTH_OK p = Inr AuthOk"
  "decode js DATA_AUTH_ERR (code # rest) =
     and_then (utf8_field rest) (\<lambda>reason. Inr (AuthErr \<lparr>ae_code = code, ae_reason = reason\<rparr>))"
  "decode js DATA_OPEN p = decode_data_open p"
  "decode js CONTROL_HELLO p = and_then (read_json (hello_from_slice js) p) (\<lambda>h. Inr (Hello h))"
  "decode js CONTROL_HELLO_OK p =
     and_then (read_json (hello_ok_from_slice js) p) (\<lambda>h. Inr (HelloOk h))"
  "decode js CONTROL_REGISTER p =
     and_then (read_json (register_from_slice js) p) (\<lambda>r. Inr (Register r))"
  "decode js CONTROL_REGISTER_OK p =
     and_then (read_json (register_ok_from_slice js) p) (\<lambda>r. Inr (RegisterOk r))"
  "decode js CONTROL_SUBSCRIBE p =
     and_then (read_json (subscribe_from_slice js) p) (\<lambda>s. Inr (Subscribe s))"
  "decode js CONTROL_SUBSCRIBE_OK p =
     and_then (read_json (subscribe_ok_from_slice js) p) (\<lambda>s. Inr (SubscribeOk s))"
  "decode js CONTROL_HEARTBEAT p = Inr Heartbeat"
  by (simp_all add: decode_def tag_defs)

lemma decode_control_error:
  "utf8_string r \<Longrightarrow>
     decode js CONTROL_ERROR (u16_to_le_bytes c @ as_bytes r) = Inr (ControlError c r)"
  using u16_at_append [of 0 "[]" c "as_bytes r"]
    slice_append [of 2 "u16_to_le_bytes c" "2 + length r" "as_bytes r" "[]"]
  by (simp add: decode_def tag_defs utf8_field_as_bytes nth_append)

lemma codec_okD: "codec_ok ser de \<Longrightarrow> ser v = Some bs \<Longrightarrow> de bs = Some v"
  by (simp add: codec_ok_def)

lemma decode_encode:
  assumes "json_codec_ok js" and "frame_wf f" and "encode_payload js f = Inr payload"
  shows "decode js (tag f) payload = Inr f"
  using assms
  by (cases f)
    (auto simp: array32_def utf8_field_as_bytes write_json_iff read_json_def json_codec_ok_def
      encode_data_open_iff decode_data_open_encoded decode_control_error
      simp del: encode_payload.simps(6) dest: codec_okD)

lemma read_exact_enough: "n = length xs \<Longrightarrow>
   read_exact n \<lparr>r_in = xs @ ys, r_end = e\<rparr> = (Inr xs, \<lparr>r_in = ys, r_end = e\<rparr>)"
  by (simp add: read_exact_def)

lemma read_from_head:
  assumes "length payload \<le> MAX_FRAME_PAYLOAD"
  shows "read_from js \<lparr>r_in = frame_head t (length payload) @ payload @ rest, r_end = e\<rparr> =
    (decode js t payload, \<lparr>r_in = rest, r_end = e\<rparr>)"
proof -
  have n: "length payload < 65536"
    using assms by (simp add: MAX_FRAME_PAYLOAD_def)
  have "read_exact 3 \<lparr>r_in = frame_head t (length payload) @ payload @ rest, r_end = e\<rparr> =
    (Inr (frame_head t (length payload)), \<lparr>r_in = payload @ rest, r_end = e\<rparr>)"
    by (rule read_exact_enough) (simp add: frame_head_def)
  then show ?thesis
    using assms u16_from_len_bytes [OF n] read_exact_enough [of "length payload" payload rest e]
    by (simp add: read_from_def frame_head_def Let_def)
qed

lemma write_all_Inr:
  "write_all bs w = (Inr u, w') \<Longrightarrow> w_out w' = w_out w @ bs"
  by (auto simp: write_all_def split: option.splits if_splits)

lemma write_to_Inr:
  assumes "write_to js f w = (Inr u, w')"
  shows "w_out w' = w_out w @ wire js f"
    and "\<exists>payload. encode_payload js f = Inr payload \<and> length payload \<le> MAX_FRAME_PAYLOAD
        \<and> wire js f = frame_head (tag f) (length payload) @ payload"
  using assms
  by (auto simp: write_to_def wire_def split: sum.splits if_splits prod.splits dest!: write_all_Inr)

lemma read_from_wire:
  assumes "json_codec_ok js" and "frame_wf f" and "write_to js f w = (Inr u, w')"
  shows "read_from js \<lparr>r_in = wire js f @ rest, r_end = e\<rparr> = (Inr f, \<lparr>r_in = rest, r_end = e\<rparr>)"
proof -
  obtain payload where p: "encode_payload js f = Inr payload" "length payload \<le> MAX_FRAME_PAYLOAD"
    "wire js f = frame_head (tag f) (length payload) @ payload"
    using write_to_Inr(2) [OF assms(3)] by blast
  then show ?thesis
    using read_from_head [OF p(2), of js "tag f" rest e] decode_encode [OF assms(1,2) p(1)] by simp
qed

section \<open>A sequence of frames on one stream\<close>

text \<open>
  What a protocol needs of its framing: sending appends one encoding, and a receiver that is
  given an encoding followed by anything returns the frame and leaves the rest.
\<close>

locale framed_stream =
  fixes send :: "'f \<Rightarrow> 'w \<Rightarrow> ('e + unit) \<times> 'w"
    and recv :: "'r \<Rightarrow> ('d + 'f) \<times> 'r"
    and out :: "'w \<Rightarrow> bytes"
    and input :: "bytes \<Rightarrow> 'r"
    and ok :: "'f \<Rightarrow> bool"
    and enc :: "'f \<Rightarrow> bytes"
  assumes send_out: "send f w = (Inr u, w') \<Longrightarrow> out w' = out w @ enc f"
    and recv_enc: "ok f \<Longrightarrow> send f w = (Inr u, w') \<Longrightarrow> recv (input (enc f @ rest)) = (Inr f, input rest)"
begin

lemma send_all_out:
  "send_all send fs w = (Inr u, w') \<Longrightarrow> out w' = out w @ concat (map enc fs)"
  by (induction fs arbitrary: w) (auto split: prod.splits sum.splits dest: send_out)

lemma recv_n_enc:
  "list_all ok fs \<Longrightarrow> send_all send fs w = (Inr u, w') \<Longrightarrow>
     recv_n recv (length fs) (input (concat (map enc fs) @ rest)) = (Inr fs, input rest)"
proof (induction fs arbitrary: w)
  case Nil
  then show ?case by simp
next
  case (Cons f fs)
  obtain v w1 where s: "send f w = (Inr v, w1)" and ss: "send_all send fs w1 = (Inr u, w')"
    using Cons.prems(2) by (auto split: prod.splits sum.splits)
  have "recv (input (enc f @ concat (map enc fs) @ rest)) = (Inr f, input (concat (map enc fs) @ rest))"
    using Cons.prems(1) s by (intro recv_enc) auto
  then show ?case
    using Cons.IH [OF _ ss] Cons.prems(1) by simp
qed

end

interpretation fs: framed_stream "write_to js" "read_from js" w_out
  "\<lambda>bs. \<lparr>r_in = bs, r_end = e\<rparr>" "\<lambda>f. json_codec_ok js \<and> frame_wf f" "wire js" for js e
  by unfold_locales (auto dest: write_to_Inr(1) read_from_wire)

section \<open>Truncated, oversized and malformed frames\<close>

lemma read_exact_short:
  "length xs < n \<Longrightarrow> read_exact n \<lparr>r_in = xs, r_end = Eof\<rparr> =
     (Inl UnexpectedEof, \<lparr>r_in = [], r_end = Eof\<rparr>)"
  by (simp add: read_exact_def)

lemma length_frame_head [simp]: "length (frame_head t n) = 3"
  by (simp add: frame_head_def)

lemma read_from_truncated:
  assumes p: "length payload \<le> MAX_FRAME_PAYLOAD" and k: "k < 3 + length payload"
  shows "fst (read_from js \<lparr>r_in = take k (frame_head t (length payload) @ payload), r_end = Eof\<rparr>) =
    Inl (Error (if k < 3 then ShortHeader else ShortPayload (length payload) 0))"
proof (cases "k < 3")
  case True
  then show ?thesis
    using read_exact_short [of "take k (frame_head t (length payload) @ payload)" 3]
    by (simp add: read_from_def)
next
  case False
  have n: "length payload < 65536"
    using p by (simp add: MAX_FRAME_PAYLOAD_def)
  have hd: "read_exact 3 \<lparr>r_in = take k (frame_head t (length payload) @ payload), r_end = Eof\<rparr> =
    (Inr (frame_head t (length payload)), \<lparr>r_in = take (k - 3) payload, r_end = Eof\<rparr>)"
    using False read_exact_enough [of 3 "frame_head t (length payload)" "take (k - 3) payload" Eof]
    by simp
  have "read_exact (length payload) \<lparr>r_in = take (k - 3) payload, r_end = Eof\<rparr> =
    (Inl UnexpectedEof, \<lparr>r_in = [], r_end = Eof\<rparr>)"
    using k False by (intro read_exact_short) simp
  then show ?thesis
    using hd k False p u16_from_len_bytes [OF n]
    by (auto simp: read_from_def Let_def frame_head_def)
qed

lemma decode_data_open_panic_iff: "decode_data_open p = Inl Panic \<longleftrightarrow>
    service_accepted p \<and> (provider_past_end p \<or> consumer_length_past_end p)"
  unfolding decode_data_open_def open_panic_defs Let_def
  by (auto simp: u16_at_def slice_def utf8_field_def from_utf8_def and_then_Inl_iff ok_or_def
      numeral_eq_Suc split: if_splits)

lemma array32_no_panic [simp]: "array32 p \<noteq> Inl Panic"
  by (simp add: array32_def)

lemma read_json_no_panic [simp]: "read_json de p \<noteq> Inl Panic"
  by (cases "de p") (auto simp: read_json_def)

lemma decode_panic_iff: "decode js t p = Inl Panic \<longleftrightarrow>
    t = DATA_OPEN \<and> service_accepted p \<and> (provider_past_end p \<or> consumer_length_past_end p)"
proof (cases "t = DATA_OPEN")
  case True
  then show ?thesis
    by (simp add: decode_data_open_panic_iff)
next
  case False
  then show ?thesis
    by (auto simp: decode_def and_then_Inl_iff u16_at_def slice_def split: list.splits)
qed

section \<open>Decoded frames are well formed\<close>

lemma utf8_field_InrD: "utf8_field bs = Inr s \<Longrightarrow> utf8_string s"
  by (auto simp: utf8_field_def dest: from_utf8_SomeD)

lemma decode_data_open_typed:
  "decode_data_open p = Inr f \<Longrightarrow> tag f = DATA_OPEN \<and> frame_wf f"
  by (auto simp: decode_data_open_def Let_def and_then_Inr_iff slice_def
      split: if_splits dest: utf8_field_InrD)

lemma decode_typed:
  assumes "decode js t p = Inr f"
  shows "tag f = t \<and> (t < 0x10 \<longrightarrow> frame_wf f)"
  using assms decode_data_open_typed [of p f]
  unfolding decode_def
  by (auto simp: and_then_Inr_iff array32_def CONTROL_HELLO_def CONTROL_HELLO_OK_def
      CONTROL_REGISTER_def CONTROL_REGISTER_OK_def CONTROL_SUBSCRIBE_def CONTROL_SUBSCRIBE_OK_def
      split: if_splits list.splits dest: utf8_field_InrD)

lemma decode_json_typed:
  assumes "json_typed js" and "decode js t p = Inr f"
  shows "frame_wf f"
  using assms decode_data_open_typed [of p f]
  unfolding decode_def json_typed_def
  by (auto simp: and_then_Inr_iff array32_def read_json_def ok_or_Inr_iff
      split: if_splits list.splits dest: utf8_field_InrD)

lemma read_exact_InrD:
  assumes "read_exact n r = (Inr bs, r')"
  shows "r_in r = bs @ r_in r' \<and> length bs = n \<and> r_end r' = r_end r"
  using assms by (auto simp: read_exact_def split: if_splits)

lemma read_from_consumes:
  assumes "read_from js r = (Inr f, r')"
  shows "r_end r' = r_end r \<and> (\<exists>t l h payload. r_in r = t # l # h # payload @ r_in r' \<and>
    length payload = unat (u16_from_le_bytes l h) \<and> length payload \<le> MAX_FRAME_PAYLOAD \<and> decode js t payload = Inr f)"
proof -
  obtain head r1 where h: "read_exact 3 r = (Inr head, r1)"
    using assms by (auto simp: read_from_def split: prod.splits sum.splits io_error.splits)
  obtain t l h where head: "head = [t, l, h]" and r1: "r_in r = [t, l, h] @ r_in r1" "r_end r1 = r_end r"
    using read_exact_InrD [OF h] by (auto simp: numeral_3_eq_3 length_Suc_conv)
  let ?n = "unat (u16_from_le_bytes l h)"
  have n: "?n \<le> MAX_FRAME_PAYLOAD"
    and rest: "if 0 < ?n then \<exists>payload. read_exact ?n r1 = (Inr payload, r') \<and> decode js t payload = Inr f
      else r' = r1 \<and> decode js t [] = Inr f"
    using assms by (auto simp: read_from_def h head Let_def split: if_splits prod.splits sum.splits io_error.splits)
  show ?thesis
  proof (cases "0 < ?n")
    case True
    with rest obtain payload where "read_exact ?n r1 = (Inr payload, r')" "decode js t payload = Inr f" by auto
    with read_exact_InrD [OF this(1)] r1 n show ?thesis by auto
  next
    case False
    with rest r1 show ?thesis by auto
  qed
qed

section \<open>The concrete codec is one\<close>

lemma get_put_str [simp]: "get_str (put_str s @ r) = Some (s, r)"
proof (induction s)
  case Nil
  then show ?case by (cases r) (simp_all add: put_str_def)
next
  case (Cons c s)
  then show ?case by (simp add: put_str_def unat_of_char_u8)
qed

lemma get_put_str_all [simp]: "get_str (put_str s) = Some (s, [])"
  using get_put_str [of s "[]"] by simp

lemma get_put_u64 [simp]: "get_u64 (put_u64 w) = w"
proof -
  have "map (\<lambda>b. b = 1) (put_u64 w) = map (bit w) [0..<64]"
    by (simp add: put_u64_def)
  then show ?thesis
    by (simp add: get_u64_def horner_sum_bit_eq_take_bit take_bit_word_eq_self)
qed

lemma marked_codec_ok: "json_codec_ok marked_codec"
  by (auto simp: json_codec_ok_def codec_ok_def marked_codec_def split: option.splits)

lemma checked_codec_typed: "json_typed checked_codec"
  by (auto simp: json_typed_def checked_codec_def checked_def split: option.splits if_splits)

section \<open>Properties\<close>

text \<open>
  C7. Frames cross a stream unchanged and in order: what any sequence of successful \<open>write_to\<close>
  calls puts on a stream is read back by as many \<open>read_from\<close> calls as exactly those frames, and
  the bytes that follow them are left unread.
\<close>

theorem frames_roundtrip:
  assumes "json_codec_ok js" and "list_all frame_wf fs"
    and "send_all (write_to js) fs w = (Inr (), w')"
  shows "\<exists>bs. w_out w' = w_out w @ bs \<and>
    (\<forall>rest e. recv_n (read_from js) (length fs) \<lparr>r_in = bs @ rest, r_end = e\<rparr> =
       (Inr fs, \<lparr>r_in = rest, r_end = e\<rparr>))"
proof -
  have "list_all (\<lambda>f. json_codec_ok js \<and> frame_wf f) fs"
    using assms(1,2) by (simp add: list_all_iff)
  then show ?thesis
    using fs.send_all_out [OF assms(3)] fs.recv_n_enc [OF _ assms(3)] by blast
qed

theorem frames_roundtrip_witness:
  "\<exists>bs. w_out (snd (send_all (write_to marked_codec)
        [AuthHello, DataOpen ''ssh'' ''p'' ''c'' (replicate 32 0), Hello \<lparr>group_token = ''t'', client_info = ''i''\<rparr>]
        \<lparr>w_out = [], w_budget = None\<rparr>)) = bs \<and>
     recv_n (read_from marked_codec) 3 \<lparr>r_in = bs @ [7], r_end = Eof\<rparr> =
       (Inr [AuthHello, DataOpen ''ssh'' ''p'' ''c'' (replicate 32 0),
          Hello \<lparr>group_token = ''t'', client_info = ''i''\<rparr>], \<lparr>r_in = [7], r_end = Eof\<rparr>)"
proof -
  let ?fs = "[AuthHello, DataOpen ''ssh'' ''p'' ''c'' (replicate 32 0),
    Hello \<lparr>group_token = ''t'', client_info = ''i''\<rparr>]"
  let ?w = "\<lparr>w_out = [], w_budget = None\<rparr>"
  have wf: "list_all frame_wf ?fs"
    by code_simp
  obtain w' where w': "send_all (write_to marked_codec) ?fs ?w = (Inr (), w')"
  proof -
    have "fst (send_all (write_to marked_codec) ?fs ?w) = Inr ()"
      by (simp add: write_to_def put_field_def write_all_def write_json_def marked_codec_def
          put_str_def U16_MAX_def MAX_FRAME_PAYLOAD_def)
    then show ?thesis
      using that by (metis prod.collapse)
  qed
  have len: "length ?fs = 3"
    by simp
  show ?thesis
    using frames_roundtrip [OF marked_codec_ok wf w', unfolded len] unfolding w' by fastforce
qed

text \<open>
  No prefix of a frame is taken for a frame: a stream that ends after fewer bytes than one
  written frame has makes \<open>read_from\<close> report a short header or a short payload.
\<close>

theorem truncated_frame_rejected:
  assumes "write_to js f \<lparr>w_out = [], w_budget = None\<rparr> = (Inr (), w)"
    and "k < length (w_out w)"
  shows "\<exists>n. fst (read_from js \<lparr>r_in = take k (w_out w), r_end = Eof\<rparr>) =
    Inl (Error (if k < 3 then ShortHeader else ShortPayload n 0))"
proof -
  obtain payload where "length payload \<le> MAX_FRAME_PAYLOAD"
    and "w_out w = frame_head (tag f) (length payload) @ payload"
    using write_to_Inr [OF assms(1)] by auto
  then show ?thesis
    using read_from_truncated [of payload k js "tag f"] assms(2) by auto
qed

theorem truncated_frame_rejected_witness:
  "\<exists>n. fst (read_from marked_codec \<lparr>r_in = [0x1F, 4, 0, 1, 0, 97], r_end = Eof\<rparr>) =
     Inl (Error (ShortPayload n 0))"
proof -
  have w: "write_to marked_codec (ControlError 1 ''ab'') \<lparr>w_out = [], w_budget = None\<rparr> =
      (Inr (), \<lparr>w_out = [0x1F, 4, 0, 1, 0, 97, 98], w_budget = None\<rparr>)"
    by code_simp
  show ?thesis
    using truncated_frame_rejected [OF w, of 6] by simp
qed

text \<open>
  A header that announces more than \<open>MAX_FRAME_PAYLOAD\<close> bytes is refused before any of
  the body is consumed.
\<close>

theorem oversized_frame_rejected:
  assumes "MAX_FRAME_PAYLOAD < n" and "n < 65536"
  shows "read_from js \<lparr>r_in = frame_head t n @ body, r_end = e\<rparr> =
    (Inl (Error (TooLong n MAX_FRAME_PAYLOAD)), \<lparr>r_in = body, r_end = e\<rparr>)"
  using assms u16_from_len_bytes [OF assms(2)] read_exact_enough [of 3 "frame_head t n" body e]
  by (simp add: read_from_def frame_head_def Let_def)

theorem oversized_frame_rejected_witness:
  "read_from marked_codec \<lparr>r_in = frame_head DATA_AUTH_NONCE 65535 @ [0, 0], r_end = Eof\<rparr> =
    (Inl (Error (TooLong 65535 MAX_FRAME_PAYLOAD)), \<lparr>r_in = [0, 0], r_end = Eof\<rparr>)"
  by (rule oversized_frame_rejected) (simp_all add: MAX_FRAME_PAYLOAD_def)

text \<open>
  C25. The inputs on which the decoder panics, exactly: a \<open>DataOpen\<close> payload whose service field is
  accepted (long enough and UTF-8) and whose provider length leads out of the payload, either
  because the provider field ends after it, or because the field fits and is UTF-8 but leaves less
  than the two bytes of the consumer's length. Every other malformed payload of any tag is reported
  as an error, also an overlong provider length behind a service name that is not UTF-8.
\<close>

theorem decode_panics_iff:
  "decode js t payload = Inl Panic \<longleftrightarrow>
    t = DATA_OPEN \<and> service_accepted payload \<and> (provider_past_end payload \<or> consumer_length_past_end payload)"
  by (rule decode_panic_iff)

text \<open>
  C9. Every frame that comes off a stream has the type its struct promises, whatever the peer sent:
  its tag is the first byte that was read, the two bytes after it are the length of the payload, at
  most \<open>MAX_FRAME_PAYLOAD\<close>, exactly this header and payload were consumed, the arrays of the frame have
  32 bytes and its strings are UTF-8. Of the JSON library only the last is assumed, that the strings
  it returns are UTF-8.
\<close>

theorem read_frames_typed:
  assumes "json_typed js" and "read_from js r = (Inr f, r')"
  shows "frame_wf f \<and> r_end r' = r_end r \<and>
    (\<exists>l h payload. r_in r = tag f # l # h # payload @ r_in r' \<and>
       length payload = unat (u16_from_le_bytes l h) \<and> length payload \<le> MAX_FRAME_PAYLOAD \<and>
       decode js (tag f) payload = Inr f)"
  using read_from_consumes [OF assms(2)] decode_typed decode_json_typed [OF assms(1)] by metis

theorem read_frames_typed_witness:
  "\<exists>l h payload. [0x12, 5, 0, 1, 97, 1, 98, 0, 7] = tag (Register \<lparr>reg_service = ''ab''\<rparr>) # l # h # payload @ [7] \<and>
     length payload = unat (u16_from_le_bytes l h) \<and> utf8_string ''ab''"
proof -
  have "read_from checked_codec \<lparr>r_in = [0x12, 5, 0, 1, 97, 1, 98, 0, 7], r_end = Eof\<rparr> =
      (Inr (Register \<lparr>reg_service = ''ab''\<rparr>), \<lparr>r_in = [7], r_end = Eof\<rparr>)"
    by code_simp
  from read_frames_typed [OF checked_codec_typed this] show ?thesis
    by auto
qed

end
