(* ===== verification/Auth.thy ===== *)
theory Auth
  imports Protocol
begin

text \<open>
  The shared-secret authentication of the data plane: \<open>compute_proof\<close> and \<open>verify_proof\<close>
  (\<^verbatim>\<open>crates/common/src/protocol.rs\<close>), the provider's side of the handshake
  (\<^verbatim>\<open>ExposeHandler::handle\<close> in \<^verbatim>\<open>crates/client/src/expose.rs\<close>, repeated in \<^verbatim>\<open>StaticHandler::handle\<close>
  of \<^verbatim>\<open>static_http.rs\<close>) and the consumer's side (\<^verbatim>\<open>dial_direct\<close>, \<^verbatim>\<open>dial_relay\<close> in
  \<^verbatim>\<open>consume.rs\<close>).

  HMAC-SHA256 is a library: a function \<open>hmac key message\<close> is a parameter of every definition
  here, and no property assumes more of it than that its codes have 32 bytes. The random nonce of the provider is an argument.
\<close>

type_synonym hmac = "bytes \<Rightarrow> bytes \<Rightarrow> bytes"

section \<open>Proofs\<close>

definition compute_proof :: "hmac \<Rightarrow> bytes \<Rightarrow> string \<Rightarrow> bytes \<Rightarrow> bytes" where
  "compute_proof hm shared_secret service_name n = hm shared_secret (as_bytes service_name @ n)"

definition verify_proof :: "hmac \<Rightarrow> bytes \<Rightarrow> string \<Rightarrow> bytes \<Rightarrow> bytes \<Rightarrow> bool" where
  "verify_proof hm shared_secret service_name n p \<longleftrightarrow>
     compute_proof hm shared_secret service_name n = p"

definition make_proof :: "hmac \<Rightarrow> bytes \<Rightarrow> string \<Rightarrow> bytes \<Rightarrow> bytes" where
  "make_proof hm secret service n = compute_proof hm secret service n"

section \<open>The provider's side\<close>

text \<open>
  How a handshake ends for the provider: it goes on to serve the stream, it returns \<open>Ok(())\<close>
  without serving (a wrong frame or a wrong proof), or it returns an error.
\<close>

datatype provider_outcome =
    Authenticated
  | UnexpectedFrame frame
  | BadProof
  | HandshakeError "frame_error fault"

definition provider_handshake ::
  "json_codec \<Rightarrow> hmac \<Rightarrow> bytes \<Rightarrow> string \<Rightarrow> bytes \<Rightarrow> reader \<Rightarrow> writer
     \<Rightarrow> provider_outcome \<times> reader \<times> writer" where
  "provider_handshake js hm secret name n r w =
     (case read_from js r of
        (Inl e, r1) \<Rightarrow> (HandshakeError e, r1, w)
      | (Inr first, r1) \<Rightarrow>
          if first \<noteq> AuthHello then (UnexpectedFrame first, r1, w)
          else
            (case write_to js (AuthNonce \<lparr>nonce = n\<rparr>) w of
               (Inl e, w1) \<Rightarrow> (HandshakeError (Error e), r1, w1)
             | (Inr _, w1) \<Rightarrow>
                 (case read_from js r1 of
                    (Inl e, r2) \<Rightarrow> (HandshakeError e, r2, w1)
                  | (Inr (AuthProof p), r2) \<Rightarrow>
                      if \<not> verify_proof hm secret name n (mac p)
                      then (BadProof, r2,
                        snd (write_to js (AuthErr \<lparr>ae_code = AUTH_ERR_BAD_PROOF,
                          ae_reason = ''bad HMAC proof''\<rparr>) w1))
                      else
                        (case write_to js AuthOk w1 of
                           (Inl e, w2) \<Rightarrow> (HandshakeError (Error e), r2, w2)
                         | (Inr _, w2) \<Rightarrow> (Authenticated, r2, w2))
                  | (Inr other, r2) \<Rightarrow> (UnexpectedFrame other, r2, w1))))"

section \<open>The consumer's side\<close>

text \<open>
  How the handshake of \<open>dial_direct\<close> and \<open>dial_relay\<close> ends. The constructors are the error
  messages of the code: a failed write of \<open>AuthHello\<close>, a failed read or write after it, an
  \<open>AuthErr\<close> instead of a nonce, another frame, a rejected proof, and a stream that is lost while
  the answer is awaited (reported as a rejected proof).
\<close>

datatype dial_error =
    HelloWriteFailed frame_error
  | FrameFailed "frame_error fault"
  | AuthErrBeforeNonce u8 string
  | ExpectedNonce frame
  | ProofRejected u8 string
  | ExpectedAuthOk frame
  | LostAfterProof "frame_error fault"

definition consumer_handshake ::
  "json_codec \<Rightarrow> hmac \<Rightarrow> bytes \<Rightarrow> string \<Rightarrow> reader \<Rightarrow> writer
     \<Rightarrow> (dial_error + unit) \<times> reader \<times> writer" where
  "consumer_handshake js hm secret name r w =
     (case write_to js AuthHello w of
        (Inl e, w1) \<Rightarrow> (Inl (HelloWriteFailed e), r, w1)
      | (Inr _, w1) \<Rightarrow>
          (case read_from js r of
             (Inl e, r1) \<Rightarrow> (Inl (FrameFailed e), r1, w1)
           | (Inr (AuthNonce a), r1) \<Rightarrow>
               (case write_to js (AuthProof \<lparr>mac = make_proof hm secret name (nonce a)\<rparr>) w1 of
                  (Inl e, w2) \<Rightarrow> (Inl (FrameFailed (Error e)), r1, w2)
                | (Inr _, w2) \<Rightarrow>
                    (case read_from js r1 of
                       (Inr AuthOk, r2) \<Rightarrow> (Inr (), r2, w2)
                     | (Inr (AuthErr e), r2) \<Rightarrow>
                         (Inl (ProofRejected (ae_code e) (ae_reason e)), r2, w2)
                     | (Inr other, r2) \<Rightarrow> (Inl (ExpectedAuthOk other), r2, w2)
                     | (Inl e, r2) \<Rightarrow> (Inl (LostAfterProof e), r2, w2)))
           | (Inr (AuthErr e), r1) \<Rightarrow>
               (Inl (AuthErrBeforeNonce (ae_code e) (ae_reason e)), r1, w1)
           | (Inr other, r1) \<Rightarrow> (Inl (ExpectedNonce other), r1, w1)))"

section \<open>Challenge and response\<close>

text \<open>
  The interface of a challenge-response scheme, and what a verifier can conclude from it: a
  proof passes exactly when it is the one for this key and this challenge, so a proof made
  for another key or challenge passes only if the two proofs coincide.
\<close>

locale challenge_response =
  fixes prove :: "'k \<Rightarrow> 'c \<Rightarrow> bytes"
    and verify :: "'k \<Rightarrow> 'c \<Rightarrow> bytes \<Rightarrow> bool"
  assumes verify_iff: "verify k c p \<longleftrightarrow> p = prove k c"
begin

lemma complete: "verify k c (prove k c)"
  by (simp add: verify_iff)

lemma unique: "verify k c p \<Longrightarrow> verify k c q \<Longrightarrow> p = q"
  by (simp add: verify_iff)

lemma cross: "verify k c (prove k' c') \<longleftrightarrow> prove k c = prove k' c'"
  by (auto simp: verify_iff)

end

interpretation cr: challenge_response "\<lambda>s (name, n). compute_proof hm s name n"
  "\<lambda>s (name, n). verify_proof hm s name n" for hm
  by unfold_locales (auto simp: verify_proof_def)

lemma proof_message_inj:
  assumes "length n = length n'"
  shows "as_bytes s @ n = as_bytes t @ n' \<longleftrightarrow> s = t \<and> n = n'"
  using assms by (auto simp: append_eq_append_conv)

section \<open>Single steps\<close>

lemma write_to_unlimited:
  assumes "encode_payload js f = Inr payload" and "length payload \<le> MAX_FRAME_PAYLOAD"
    and "w_budget w = None"
  shows "write_to js f w = (Inr (), w\<lparr>w_out := w_out w @ wire js f\<rparr>)"
  using assms by (auto simp: write_to_def write_all_def wire_def)

lemma write_small_frames:
  assumes "w_budget w = None"
  shows "write_to js AuthHello w = (Inr (), w\<lparr>w_out := w_out w @ wire js AuthHello\<rparr>)"
    and "write_to js AuthOk w = (Inr (), w\<lparr>w_out := w_out w @ wire js AuthOk\<rparr>)"
    and "length (nonce a) = 32 \<Longrightarrow>
       write_to js (AuthNonce a) w = (Inr (), w\<lparr>w_out := w_out w @ wire js (AuthNonce a)\<rparr>)"
    and "length (mac p) = 32 \<Longrightarrow>
       write_to js (AuthProof p) w = (Inr (), w\<lparr>w_out := w_out w @ wire js (AuthProof p)\<rparr>)"
  using assms by (auto intro!: write_to_unlimited simp: MAX_FRAME_PAYLOAD_def)

lemma read_small_frames:
  "read_from js \<lparr>r_in = wire js AuthHello @ rest, r_end = e\<rparr> =
     (Inr AuthHello, \<lparr>r_in = rest, r_end = e\<rparr>)"
  "read_from js \<lparr>r_in = wire js AuthOk @ rest, r_end = e\<rparr> = (Inr AuthOk, \<lparr>r_in = rest, r_end = e\<rparr>)"
  "length (nonce a) = 32 \<Longrightarrow>
     read_from js \<lparr>r_in = wire js (AuthNonce a) @ rest, r_end = e\<rparr> =
     (Inr (AuthNonce a), \<lparr>r_in = rest, r_end = e\<rparr>)"
  "length (mac p) = 32 \<Longrightarrow>
     read_from js \<lparr>r_in = wire js (AuthProof p) @ rest, r_end = e\<rparr> =
     (Inr (AuthProof p), \<lparr>r_in = rest, r_end = e\<rparr>)"
  using read_from_head [of "[]" js "DATA_AUTH_HELLO" rest e]
    read_from_head [of "[]" js "DATA_AUTH_OK" rest e]
    read_from_head [of "nonce a" js "DATA_AUTH_NONCE" rest e]
    read_from_head [of "mac p" js "DATA_AUTH_PROOF" rest e]
  by (auto simp: wire_def MAX_FRAME_PAYLOAD_def array32_def)

lemma provider_authenticated_cases:
  assumes "provider_handshake js hm secret name n r w = (Authenticated, r', w')"
  obtains r1 p where "read_from js r = (Inr AuthHello, r1)"
    and "read_from js r1 = (Inr (AuthProof p), r')"
    and "verify_proof hm secret name n (mac p)"
    and "w_out w' = w_out w @ wire js (AuthNonce \<lparr>nonce = n\<rparr>) @ wire js AuthOk"
proof -
  have "\<exists>r1 p. read_from js r = (Inr AuthHello, r1) \<and> read_from js r1 = (Inr (AuthProof p), r')
    \<and> verify_proof hm secret name n (mac p)
    \<and> w_out w' = w_out w @ wire js (AuthNonce \<lparr>nonce = n\<rparr>) @ wire js AuthOk"
    using assms
    by (auto simp: provider_handshake_def split: prod.splits sum.splits if_splits frame.splits
        dest!: write_to_Inr(1))
  then show thesis
    using that by blast
qed

lemma consumer_authenticated_cases:
  assumes "consumer_handshake js hm secret name r w = (Inr u, r', w')"
  obtains r1 a where "read_from js r = (Inr (AuthNonce a), r1)" and "read_from js r1 = (Inr AuthOk, r')"
    and "w_out w' = w_out w @ wire js AuthHello @ wire js (AuthProof \<lparr>mac = compute_proof hm secret name (nonce a)\<rparr>)"
proof -
  have "\<exists>r1 a. read_from js r = (Inr (AuthNonce a), r1) \<and> read_from js r1 = (Inr AuthOk, r') \<and>
    w_out w' = w_out w @ wire js AuthHello @ wire js (AuthProof \<lparr>mac = compute_proof hm secret name (nonce a)\<rparr>)"
    using assms
    by (auto simp: consumer_handshake_def make_proof_def split: prod.splits sum.splits if_splits frame.splits
        dest!: write_to_Inr(1))
  then show thesis
    using that by blast
qed

lemma provider_completes:
  assumes "length n = 32" and "length (compute_proof hm secret name n) = 32"
  shows "provider_handshake js hm secret name n
      \<lparr>r_in = wire js AuthHello @ wire js (AuthProof \<lparr>mac = compute_proof hm secret name n\<rparr>) @ rest,
       r_end = e\<rparr> \<lparr>w_out = [], w_budget = None\<rparr> =
    (Authenticated, \<lparr>r_in = rest, r_end = e\<rparr>,
      \<lparr>w_out = wire js (AuthNonce \<lparr>nonce = n\<rparr>) @ wire js AuthOk, w_budget = None\<rparr>)"
  using assms
  by (simp add: provider_handshake_def read_small_frames write_small_frames verify_proof_def)

lemma consumer_completes:
  assumes "length n = 32" and "length (compute_proof hm secret name n) = 32"
  shows "consumer_handshake js hm secret name
      \<lparr>r_in = wire js (AuthNonce \<lparr>nonce = n\<rparr>) @ wire js AuthOk @ rest, r_end = e\<rparr>
      \<lparr>w_out = [], w_budget = None\<rparr> =
    (Inr (), \<lparr>r_in = rest, r_end = e\<rparr>,
      \<lparr>w_out = wire js AuthHello @ wire js (AuthProof \<lparr>mac = compute_proof hm secret name n\<rparr>),
       w_budget = None\<rparr>)"
  using assms
  by (simp add: consumer_handshake_def read_small_frames write_small_frames make_proof_def)

section \<open>Handlers behind the handshake\<close>

text \<open>What the provider has written when the handshake did not succeed.\<close>

definition refusals :: "json_codec \<Rightarrow> bytes \<Rightarrow> bytes set" where
  "refusals js n = {[], wire js (AuthNonce \<lparr>nonce = n\<rparr>),
     wire js (AuthNonce \<lparr>nonce = n\<rparr>) @
       wire js (AuthErr \<lparr>ae_code = AUTH_ERR_BAD_PROOF, ae_reason = ''bad HMAC proof''\<rparr>)}"

definition proves :: "json_codec \<Rightarrow> hmac \<Rightarrow> bytes \<Rightarrow> string \<Rightarrow> bytes \<Rightarrow> reader \<Rightarrow> bool" where
  "proves js hm secret name n r \<longleftrightarrow>
     (\<exists>r1 r2. read_from js r = (Inr AuthHello, r1) \<and>
        read_from js r1 = (Inr (AuthProof \<lparr>mac = compute_proof hm secret name n\<rparr>), r2))"

lemma handshake_without_proof:
  assumes "\<not> proves js hm secret name n r" and "w_budget w = None" and "length n = 32"
    and "provider_handshake js hm secret name n r w = (out, r', w')"
  shows "out \<noteq> Authenticated \<and> (\<exists>bs\<in>refusals js n. w_out w' = w_out w @ bs)"
proof
  show "out \<noteq> Authenticated"
  proof
    assume "out = Authenticated"
    with assms(4) obtain r1 p where "read_from js r = (Inr AuthHello, r1)" "read_from js r1 = (Inr (AuthProof p), r')"
      "verify_proof hm secret name n (mac p)"
      by (blast elim: provider_authenticated_cases)
    moreover from this(3) have "p = \<lparr>mac = compute_proof hm secret name n\<rparr>" by (simp add: verify_proof_def)
    ultimately show False using assms(1) unfolding proves_def by blast
  qed
  have err: "write_to js (AuthErr \<lparr>ae_code = AUTH_ERR_BAD_PROOF, ae_reason = ''bad HMAC proof''\<rparr>) v =
      (Inr (), v\<lparr>w_out := w_out v @ wire js (AuthErr \<lparr>ae_code = AUTH_ERR_BAD_PROOF, ae_reason = ''bad HMAC proof''\<rparr>)\<rparr>)"
    if "w_budget v = None" for v
    using that by (intro write_to_unlimited [OF encode_payload.simps(5)]) (simp_all add: MAX_FRAME_PAYLOAD_def)
  show "\<exists>bs\<in>refusals js n. w_out w' = w_out w @ bs"
    using assms(4) \<open>out \<noteq> Authenticated\<close>
    by (auto simp: provider_handshake_def write_small_frames assms(2,3) err refusals_def
        split: prod.splits sum.splits if_splits frame.splits)
qed

text \<open>
  The interface of a handler that runs the handshake before anything else: \<open>handle\<close> gives its
  result and the stream of the peer, and \<open>stopped\<close> says that it did nothing for the peer.
\<close>

locale guarded_handler =
  fixes js :: json_codec and hm :: hmac and secret :: bytes and name :: string and n :: bytes
    and handle :: "reader \<Rightarrow> writer \<Rightarrow> 'res \<times> writer"
    and stopped :: "'res \<Rightarrow> bool"
  assumes guarded: "provider_handshake js hm secret name n r w = (out, r', w') \<Longrightarrow> out \<noteq> Authenticated \<Longrightarrow>
      stopped (fst (handle r w)) \<and> snd (handle r w) = w'"
begin

lemma nothing_without_proof:
  assumes "\<not> proves js hm secret name n r" and "w_budget w = None" and "length n = 32"
  shows "stopped (fst (handle r w)) \<and> (\<exists>bs\<in>refusals js n. w_out (snd (handle r w)) = w_out w @ bs)"
proof -
  obtain out r' w' where h: "provider_handshake js hm secret name n r w = (out, r', w')"
    using prod_cases3 by blast
  show ?thesis
    using guarded [OF h] handshake_without_proof [OF assms h] by auto
qed

end

section \<open>Properties\<close>

text \<open>
  A proof is bound to its service and its nonce: a provider accepts a proof that was
  computed with its secret for a service and a nonce exactly when they are its own, unless two
  different messages have the same HMAC under that secret. The concatenation that is
  authenticated is unambiguous because nonces have a fixed length.
\<close>

theorem proof_bound_to_service_and_nonce:
  assumes "length n = 32" and "length n' = 32"
  shows "verify_proof hm secret name n (compute_proof hm secret name' n') \<longleftrightarrow>
    (name = name' \<and> n = n') \<or>
    (as_bytes name @ n \<noteq> as_bytes name' @ n'
     \<and> hm secret (as_bytes name @ n) = hm secret (as_bytes name' @ n'))"
proof -
  have "verify_proof hm secret name n (compute_proof hm secret name' n') \<longleftrightarrow>
    compute_proof hm secret name n = compute_proof hm secret name' n'"
    using cr.cross [of hm secret "(name, n)" secret "(name', n')"] by simp
  moreover have "as_bytes name @ n = as_bytes name' @ n' \<longleftrightarrow> name = name' \<and> n = n'"
    using assms by (intro proof_message_inj) simp
  ultimately show ?thesis
    unfolding compute_proof_def by metis
qed

theorem proof_bound_to_service_and_nonce_witness:
  "\<not> verify_proof (\<lambda>k m. m) [1] ''web'' (replicate 32 7)
     (compute_proof (\<lambda>k m. m) [1] ''ssh'' (replicate 32 7))"
proof -
  have l: "length (replicate 32 (7 :: u8)) = 32"
    by simp
  show ?thesis
    unfolding proof_bound_to_service_and_nonce [OF l l] by simp
qed

text \<open>
  A provider serves a stream only after a valid proof: if the handshake ends in
  \<open>Authenticated\<close>, the peer sent an \<open>AuthHello\<close> frame followed by an \<open>AuthProof\<close> frame whose
  code is the HMAC of this service's name and this handshake's nonce under this service's
  secret, and the provider wrote the nonce and \<open>AuthOk\<close> and nothing else.
\<close>

theorem provider_authenticates_only_valid_proof:
  assumes "provider_handshake js hm secret name n r w = (Authenticated, r', w')"
  shows "(\<exists>r1. read_from js r = (Inr AuthHello, r1) \<and>
      read_from js r1 = (Inr (AuthProof \<lparr>mac = compute_proof hm secret name n\<rparr>), r'))
    \<and> w_out w' = w_out w @ wire js (AuthNonce \<lparr>nonce = n\<rparr>) @ wire js AuthOk"
proof -
  obtain r1 p where "read_from js r = (Inr AuthHello, r1)"
    and "read_from js r1 = (Inr (AuthProof p), r')"
    and "verify_proof hm secret name n (mac p)"
    and "w_out w' = w_out w @ wire js (AuthNonce \<lparr>nonce = n\<rparr>) @ wire js AuthOk"
    using assms by (rule provider_authenticated_cases)
  moreover from this(3) have "p = \<lparr>mac = compute_proof hm secret name n\<rparr>"
    by (simp add: verify_proof_def)
  ultimately show ?thesis
    by blast
qed

theorem provider_authenticates_only_valid_proof_witness:
  "\<exists>r1. read_from marked_codec
      \<lparr>r_in = wire marked_codec AuthHello @ wire marked_codec (AuthProof \<lparr>mac = replicate 32 115\<rparr>),
       r_end = Eof\<rparr> = (Inr AuthHello, r1) \<and>
     read_from marked_codec r1 = (Inr (AuthProof \<lparr>mac = replicate 32 115\<rparr>), \<lparr>r_in = [], r_end = Eof\<rparr>)"
proof -
  let ?hm = "\<lambda>k m :: bytes. replicate 32 (m ! 0)"
  have p: "compute_proof ?hm [9] ''ssh'' (replicate 32 3) = replicate 32 115"
    by (simp add: compute_proof_def as_bytes_def)
  have l: "length (replicate 32 (3 :: u8)) = 32"
    "length (compute_proof ?hm [9] ''ssh'' (replicate 32 3)) = 32"
    by (simp_all add: p)
  have "provider_handshake marked_codec ?hm [9] ''ssh'' (replicate 32 3)
      \<lparr>r_in = wire marked_codec AuthHello @ wire marked_codec (AuthProof \<lparr>mac = replicate 32 115\<rparr>),
       r_end = Eof\<rparr> \<lparr>w_out = [], w_budget = None\<rparr> =
    (Authenticated, \<lparr>r_in = [], r_end = Eof\<rparr>,
       \<lparr>w_out = wire marked_codec (AuthNonce \<lparr>nonce = replicate 32 3\<rparr>) @ wire marked_codec AuthOk,
        w_budget = None\<rparr>)"
    using provider_completes [OF l, of marked_codec "[]" Eof] by (simp add: p)
  from provider_authenticates_only_valid_proof [OF this] show ?thesis
    by (simp add: p)
qed

text \<open>
  The two sides of the handshake fit together: against a provider with the same secret
  and service name, the consumer's handshake succeeds and the provider's ends in
  \<open>Authenticated\<close>. Each side's input is exactly what the other side writes.
\<close>

theorem handshake_completes:
  assumes "length n = 32" and "length (compute_proof hm secret name n) = 32"
  shows "let to_provider = wire js AuthHello @
           wire js (AuthProof \<lparr>mac = compute_proof hm secret name n\<rparr>);
         to_consumer = wire js (AuthNonce \<lparr>nonce = n\<rparr>) @ wire js AuthOk;
         idle = \<lparr>w_out = [], w_budget = None\<rparr>
     in provider_handshake js hm secret name n \<lparr>r_in = to_provider @ rest, r_end = e\<rparr> idle =
          (Authenticated, \<lparr>r_in = rest, r_end = e\<rparr>, idle\<lparr>w_out := to_consumer\<rparr>)
        \<and> consumer_handshake js hm secret name \<lparr>r_in = to_consumer @ rest', r_end = e'\<rparr> idle =
          (Inr (), \<lparr>r_in = rest', r_end = e'\<rparr>, idle\<lparr>w_out := to_provider\<rparr>)"
  using provider_completes [OF assms] consumer_completes [OF assms] by (simp add: Let_def)

theorem handshake_completes_witness:
  "fst (provider_handshake marked_codec (\<lambda>k m. replicate 32 (m ! 0)) [9] ''ssh'' (replicate 32 3)
     \<lparr>r_in = wire marked_codec AuthHello @ wire marked_codec (AuthProof \<lparr>mac = replicate 32 115\<rparr>),
      r_end = Eof\<rparr> \<lparr>w_out = [], w_budget = None\<rparr>) = Authenticated"
proof -
  let ?hm = "\<lambda>k m :: bytes. replicate 32 (m ! 0)"
  have p: "compute_proof ?hm [9] ''ssh'' (replicate 32 3) = replicate 32 115"
    by (simp add: compute_proof_def as_bytes_def)
  have l: "length (replicate 32 (3 :: u8)) = 32" "length (compute_proof ?hm [9] ''ssh'' (replicate 32 3)) = 32"
    by (simp_all add: p)
  show ?thesis
    using handshake_completes [OF l, of marked_codec "[]" Eof] by (simp add: p Let_def)
qed

end
