(* ===== verification/Connected.thy ===== *)
theory Connected
  imports Auth
begin

text \<open>
  Two ends of a stream: what one side reads is what the other side wrote. A frame that is
  \<open>sendable\<close> passes from an idle writer to the reader at the far end; the lemmas here are what the
  end-to-end properties and the examples of the later theories rest on.
\<close>

section \<open>The ends of a stream\<close>

definition idle_writer :: writer where
  "idle_writer = \<lparr>w_out = [], w_budget = None\<rparr>"

text \<open>The reader at the far end of a writer, and the two views of a fresh bidirectional stream.\<close>

definition peer_reader :: "writer \<Rightarrow> reader" where
  "peer_reader w = \<lparr>r_in = w_out w, r_end = Eof\<rparr>"

definition client_end :: "writer \<Rightarrow> reader \<times> writer" where
  "client_end s = (peer_reader s, idle_writer)"

text \<open>A frame that a writer can send whole.\<close>

definition sendable :: "json_codec \<Rightarrow> frame \<Rightarrow> bool" where
  "sendable js f \<longleftrightarrow> frame_wf f \<and>
     (case encode_payload js f of Inr p \<Rightarrow> length p \<le> MAX_FRAME_PAYLOAD | Inl _ \<Rightarrow> False)"

definition sent :: "json_codec \<Rightarrow> frame \<Rightarrow> writer" where
  "sent js f = \<lparr>w_out = wire js f, w_budget = None\<rparr>"

lemma write_sendable:
  assumes "sendable js f" and "w_budget w = None"
  shows "write_to js f w = (Inr (), w\<lparr>w_out := w_out w @ wire js f\<rparr>)"
  using assms by (auto simp: sendable_def split: sum.splits intro: write_to_unlimited)

lemma write_idle [wire_simps]: "sendable js f \<Longrightarrow> write_to js f idle_writer = (Inr (), sent js f)"
  by (simp add: write_sendable idle_writer_def sent_def)

lemma read_sendable:
  assumes "json_codec_ok js" and "sendable js f"
  shows "read_from js \<lparr>r_in = wire js f @ rest, r_end = e\<rparr> = (Inr f, \<lparr>r_in = rest, r_end = e\<rparr>)"
  using read_from_wire [OF assms(1) _ write_idle [OF assms(2)]] assms(2) by (simp add: sendable_def)

lemma read_peer [wire_simps]:
  assumes "json_codec_ok js" and "sendable js f"
  shows "fst (read_from js (peer_reader (sent js f))) = Inr f"
  using read_sendable [OF assms, of "[]" Eof] by (simp add: peer_reader_def sent_def)

lemma sendable_heartbeat: "sendable js Heartbeat"
  by (simp add: sendable_def)

abbreviation register_frame :: "string \<Rightarrow> frame" where
  "register_frame name \<equiv> Register \<lparr>reg_service = name\<rparr>"

abbreviation registered_frame :: "string \<Rightarrow> frame" where
  "registered_frame name \<equiv> RegisterOk \<lparr>regok_service = name\<rparr>"

section \<open>A handshake after other frames\<close>

lemma consumer_completes_after:
  assumes "length n = 32" and "length (compute_proof hm secret name n) = 32" and "w_budget w = None"
  shows "consumer_handshake js hm secret name
      \<lparr>r_in = wire js (AuthNonce \<lparr>nonce = n\<rparr>) @ wire js AuthOk @ rest, r_end = e\<rparr> w =
    (Inr (), \<lparr>r_in = rest, r_end = e\<rparr>, w\<lparr>w_out := w_out w @ wire js AuthHello @
       wire js (AuthProof \<lparr>mac = compute_proof hm secret name n\<rparr>)\<rparr>)"
  using assms
  by (simp add: consumer_handshake_def read_small_frames write_small_frames make_proof_def)

section \<open>Frames of the example codec\<close>

lemma length_put_str: "length (put_str s) = 2 * length s + 1"
  by (simp add: put_str_def length_concat comp_def sum_list_triv)

lemma sendable_marked:
  assumes "list_all (\<lambda>c. (of_char c :: nat) < 128) s" and "length s \<le> 99"
  shows "sendable marked_codec (Subscribe \<lparr>sub_service = s\<rparr>)"
    and "sendable marked_codec (register_frame s)" and "sendable marked_codec (registered_frame s)"
  using assms
  by (simp_all add: sendable_def ascii_utf8 write_json_def marked_codec_def length_put_str U16_MAX_def MAX_FRAME_PAYLOAD_def)

lemma sendable_marked_hello:
  assumes "list_all (\<lambda>c. (of_char c :: nat) < 128) (tok @ info)" and "length tok \<le> 99" and "length info \<le> 99"
  shows "sendable marked_codec (Hello \<lparr>group_token = tok, client_info = info\<rparr>)"
  using assms
  by (simp add: sendable_def ascii_utf8 write_json_def marked_codec_def length_put_str U16_MAX_def MAX_FRAME_PAYLOAD_def)

lemma sendable_marked_ok: "sendable marked_codec (HelloOk h)"
  by (simp add: sendable_def write_json_def marked_codec_def put_u64_def U16_MAX_def MAX_FRAME_PAYLOAD_def)

end
