(* ===== verification/Alpn.thy ===== *)
theory Alpn
  imports Prelude
begin

text \<open>
  \<^verbatim>\<open>crates/common/src/alpn.rs\<close>: the three kinds of ALPN byte strings and the validation of
  service names. \<open>char::is_ascii_lowercase\<close> and its kin are false on every non-ASCII character,
  and every byte of such a character is above 127, so testing the bytes of a name is testing
  its characters.
\<close>

section \<open>Definitions\<close>

definition ALPN_CONTROL :: bytes where
  "ALPN_CONTROL = as_bytes ''meshly-core/control''"

definition ALPN_DATA :: bytes where
  "ALPN_DATA = as_bytes ''meshly-core/data''"

definition alpn_control :: bytes where
  "alpn_control = ALPN_CONTROL"

definition alpn_data :: bytes where
  "alpn_data = ALPN_DATA"

datatype alpn_error =
    BadLength nat
  | InvalidChars string
  | BadEdge
  | DoubleDash
  | Reserved string

definition RESERVED :: "string list" where
  "RESERVED = [''control'', ''data'', ''status'', ''reload'', ''admin'', ''metrics'', ''ping'']"

definition is_ascii_lowercase :: "char \<Rightarrow> bool" where
  "is_ascii_lowercase c \<longleftrightarrow> 97 \<le> (of_char c :: nat) \<and> (of_char c :: nat) \<le> 122"

definition is_ascii_digit :: "char \<Rightarrow> bool" where
  "is_ascii_digit c \<longleftrightarrow> 48 \<le> (of_char c :: nat) \<and> (of_char c :: nat) \<le> 57"

definition name_char :: "char \<Rightarrow> bool" where
  "name_char c \<longleftrightarrow> is_ascii_lowercase c \<or> is_ascii_digit c \<or> c = CHR ''-''"

definition validate_service_name :: "string \<Rightarrow> alpn_error + unit" where
  "validate_service_name name =
     (if \<not> (1 \<le> length name \<and> length name \<le> 32) then Inl (BadLength (length name))
      else if prefix ''-'' name \<or> suffix ''-'' name then Inl BadEdge
      else if sublist ''--'' name then Inl DoubleDash
      else if \<not> list_all name_char name then Inl (InvalidChars name)
      else if name \<in> set RESERVED then Inl (Reserved name)
      else Inr ())"

definition alpn_for_service :: "string \<Rightarrow> alpn_error + bytes" where
  "alpn_for_service service =
     and_then (validate_service_name service)
       (\<lambda>_. Inr (as_bytes (''meshly-core/'' @ service)))"

section \<open>The accepted names\<close>

definition valid_service_name :: "string \<Rightarrow> bool" where
  "valid_service_name name \<longleftrightarrow>
     name \<noteq> [] \<and> length name \<le> 32 \<and> list_all name_char name
     \<and> hd name \<noteq> CHR ''-'' \<and> last name \<noteq> CHR ''-''
     \<and> \<not> sublist ''--'' name \<and> name \<notin> set RESERVED"

lemma suffix_singleton_iff: "suffix [c] xs \<longleftrightarrow> xs \<noteq> [] \<and> last xs = c"
  by (metis append_butlast_last_id append_is_Nil_conv last_snoc list.distinct(1) suffix_def)

lemma prefix_singleton_iff: "prefix [c] xs \<longleftrightarrow> xs \<noteq> [] \<and> hd xs = c"
  by (cases xs) auto

lemma length_ge_one_iff: "Suc 0 \<le> length xs \<longleftrightarrow> xs \<noteq> []"
  by (cases xs) auto

lemma validate_service_name_unit: "validate_service_name name = Inr u \<longleftrightarrow> valid_service_name name"
  by (auto simp: validate_service_name_def valid_service_name_def suffix_singleton_iff
      prefix_singleton_iff length_ge_one_iff)

text \<open>
  \<open>validate_service_name\<close> accepts exactly the names its module documents: one to 32
  characters from \<open>[a-z0-9-]\<close>, no hyphen at either end, no two hyphens in a row, and none of
  the reserved administrative names.
\<close>

theorem validate_service_name_ok_iff:
  "validate_service_name name = Inr () \<longleftrightarrow> valid_service_name name"
  by (rule validate_service_name_unit)

lemma alpn_for_service_iff:
  "alpn_for_service s = Inr a \<longleftrightarrow> valid_service_name s \<and> a = as_bytes (''meshly-core/'' @ s)"
  by (auto simp: alpn_for_service_def and_then_Inr_iff validate_service_name_unit)

lemma name_char_ascii: "name_char c \<Longrightarrow> (of_char c :: nat) < 128"
  by (auto simp: name_char_def is_ascii_lowercase_def is_ascii_digit_def)

lemma valid_service_name_utf8:
  assumes "valid_service_name s"
  shows "utf8_string s"
  unfolding utf8_string_def
proof (rule valid_utf8_ascii)
  fix b
  assume "b \<in> set (as_bytes s)"
  then obtain c where c: "c \<in> set s" and b: "b = of_nat (of_char c)"
    by (auto simp: as_bytes_def)
  from c assms have "(of_char c :: nat) < 128"
    by (auto simp: valid_service_name_def list_all_iff dest: name_char_ascii)
  then show "b < 0x80"
    unfolding b by (simp add: word_less_nat_alt unat_of_char_u8)
qed

text \<open>The ALPN of a valid name, and why it is unambiguous.\<close>

definition service_alpn :: "string \<Rightarrow> bytes" where
  "service_alpn s = as_bytes (''meshly-core/'' @ s)"

lemma alpn_for_valid_service [simp]: "valid_service_name s \<Longrightarrow> alpn_for_service s = Inr (service_alpn s)"
  by (simp add: alpn_for_service_iff service_alpn_def)

lemma service_alpn_inject: "service_alpn s = service_alpn t \<longleftrightarrow> s = t"
  by (simp add: service_alpn_def as_bytes_inject)

lemma service_alpn_not_reserved:
  assumes "valid_service_name s"
  shows "service_alpn s \<noteq> alpn_control" and "service_alpn s \<noteq> alpn_data"
proof -
  have ctl: "alpn_control = service_alpn ''control''" and dat: "alpn_data = service_alpn ''data''"
    by (simp_all add: service_alpn_def alpn_control_def ALPN_CONTROL_def alpn_data_def ALPN_DATA_def)
  show "service_alpn s \<noteq> alpn_control" "service_alpn s \<noteq> alpn_data"
    using assms unfolding ctl dat service_alpn_inject by (auto simp: valid_service_name_def RESERVED_def)
qed

text \<open>
  The ALPN of a service names it uniquely and never collides with the control plane's or
  the relay's: two services with the same ALPN are the same service, and no service name is
  mapped to \<open>meshly-core/control\<close> or \<open>meshly-core/data\<close>.
\<close>

theorem alpn_for_service_separates:
  assumes "alpn_for_service s = Inr a" and "alpn_for_service t = Inr b"
  shows "(a = b \<longleftrightarrow> s = t) \<and> a \<noteq> alpn_control \<and> a \<noteq> alpn_data"
  using assms service_alpn_inject [of s t] service_alpn_not_reserved [of s]
  by (auto simp: alpn_for_service_iff service_alpn_def)

theorem alpn_for_service_separates_witness:
  "alpn_for_service ''ssh'' = Inr (as_bytes ''meshly-core/ssh'')
   \<and> as_bytes ''meshly-core/ssh'' \<noteq> as_bytes ''meshly-core/web-1''
   \<and> as_bytes ''meshly-core/ssh'' \<noteq> alpn_control"
proof -
  have s: "alpn_for_service ''ssh'' = Inr (as_bytes ''meshly-core/ssh'')"
    by code_simp
  have w: "alpn_for_service ''web-1'' = Inr (as_bytes ''meshly-core/web-1'')"
    by code_simp
  show ?thesis
    using s alpn_for_service_separates [OF s w] by simp
qed

end
