(* ===== verification/Endpoint_Id.thy ===== *)
theory Endpoint_Id
  imports Prelude
begin

text \<open>
  \<^verbatim>\<open>crates/common/src/endpoint.rs\<close>: parsing an endpoint id from its text. The type of ids, the
  parser of the canonical form, the decoder of hexadecimal text and the check of the 32 key
  bytes belong to the libraries \<open>iroh\<close> and \<open>hex\<close>: ids are a type variable \<open>'id\<close>, and the record
  \<open>id_codec\<close> holds the four library functions the repository calls.
\<close>

record 'id id_codec =
  id_from_str :: "string \<Rightarrow> 'id option"
  id_from_bytes :: "bytes \<Rightarrow> 'id option"
  id_to_string :: "'id \<Rightarrow> string"
  hex_decode :: "string \<Rightarrow> bytes option"

definition parse_endpoint_id :: "'id id_codec \<Rightarrow> string \<Rightarrow> 'id option" where
  "parse_endpoint_id ir s =
     (case id_from_str ir s of
        Some i \<Rightarrow> Some i
      | None \<Rightarrow>
          (case hex_decode ir s of
             Some bs \<Rightarrow> if length bs = 32 then id_from_bytes ir bs else None
           | None \<Rightarrow> None))"

text \<open>What \<open>iroh\<close> documents: the canonical text of an id parses to the id.\<close>

definition id_codec_ok :: "'id id_codec \<Rightarrow> bool" where
  "id_codec_ok ir \<longleftrightarrow> (\<forall>i. id_from_str ir (id_to_string ir i) = Some i)"

lemma parse_to_string: "id_codec_ok ir \<Longrightarrow> parse_endpoint_id ir (id_to_string ir i) = Some i"
  by (simp add: id_codec_ok_def parse_endpoint_id_def)

lemma parse_endpoint_id_iff:
  "parse_endpoint_id ir s = Some i \<longleftrightarrow>
     id_from_str ir s = Some i \<or>
     (id_from_str ir s = None \<and>
      (\<exists>bs. hex_decode ir s = Some bs \<and> length bs = 32 \<and> id_from_bytes ir bs = Some i))"
  by (auto simp: parse_endpoint_id_def split: option.splits)

text \<open>An executable codec for ids that are numbers, written in unary.\<close>

definition unary_ids :: "nat id_codec" where
  "unary_ids = \<lparr>
     id_from_str = (\<lambda>s. if list_all (\<lambda>c. c = CHR ''i'') s then Some (length s) else None),
     id_from_bytes = (\<lambda>bs. Some (unat (bs ! 0))),
     id_to_string = (\<lambda>i. replicate i CHR ''i''),
     hex_decode = (\<lambda>s. None)\<rparr>"

lemma unary_ids_ok: "id_codec_ok unary_ids"
  by (simp add: id_codec_ok_def unary_ids_def list_all_iff)

end
