(* ===== verification/Config.thy ===== *)
theory Config
  imports Alpn Endpoint_Id
begin

text \<open>
  \<^verbatim>\<open>crates/common/src/config.rs\<close>: the configuration structs with their defaults, and the
  validation that \<open>RootConfig::load\<close> runs on a parsed file. The TOML parser and the file system
  are parameters. A validation message is a constructor of \<open>validate_error\<close> with the values it
  prints.
\<close>

section \<open>Configuration data\<close>

record logging_config =
  level :: string

record common_config =
  identity_path :: "string option"
  logging :: logging_config

record group_config =
  gc_name :: string
  gc_group_token :: string

record heartbeat_config =
  interval_secs :: u64
  timeout_secs :: u64

record relay_rate_override =
  ro_node_id :: string
  ro_bytes_per_sec :: u64

record relay_config =
  rc_enabled :: bool
  rc_bytes_per_sec :: u64
  rate_overrides :: "relay_rate_override list"

record expose_config =
  ec_name :: string
  ec_local_addr :: string
  ec_shared_secret :: string

record static_config =
  sc_name :: string
  sc_root_dir :: string
  sc_allow_directory_listing :: bool
  sc_shared_secret :: string

record consume_config =
  cc_name :: string
  cc_local_bind :: string
  cc_shared_secret :: string

record reconnect_config =
  initial_backoff_ms :: u64
  max_backoff_ms :: u64
  prefer_direct :: bool

record root_config =
  common :: common_config
  cfg_groups :: "group_config list"
  heartbeat :: heartbeat_config
  relay :: "relay_config option"
  server_node_id :: "string option"
  cfg_group_token :: "string option"
  expose :: "expose_config list"
  static_services :: "static_config list"
  consume :: "consume_config list"
  reconnect :: reconnect_config

definition default_log_level :: string where
  "default_log_level = ''info''"

definition logging_config_default :: logging_config where
  "logging_config_default = \<lparr>level = default_log_level\<rparr>"

definition heartbeat_config_default :: heartbeat_config where
  "heartbeat_config_default = \<lparr>interval_secs = 30, timeout_secs = 90\<rparr>"

definition default_relay_bytes_per_sec :: u64 where
  "default_relay_bytes_per_sec = 100 * 1024"

definition relay_config_default :: relay_config where
  "relay_config_default =
     \<lparr>rc_enabled = False, rc_bytes_per_sec = default_relay_bytes_per_sec, rate_overrides = []\<rparr>"

definition reconnect_config_default :: reconnect_config where
  "reconnect_config_default =
     \<lparr>initial_backoff_ms = 50, max_backoff_ms = 5000, prefer_direct = True\<rparr>"

definition root_config_default :: root_config where
  "root_config_default =
     \<lparr>common = \<lparr>identity_path = None, logging = logging_config_default\<rparr>,
      cfg_groups = [], heartbeat = heartbeat_config_default, relay = None,
      server_node_id = None, cfg_group_token = None, expose = [], static_services = [],
      consume = [], reconnect = reconnect_config_default\<rparr>"

section \<open>Validation\<close>

datatype config_section = InExpose | InStatic | InConsume

datatype validate_error =
    MixesRoles
  | NoRole
  | UnknownLoggingLevel string
  | DuplicateGroupName string
  | EmptyGroupTokenOf string
  | BadOverrideNodeId nat string
  | DuplicateOverride nat string
  | RelayIsServerOnly
  | MissingServerNodeId
  | EmptyServerNodeId
  | MissingGroupToken
  | EmptyGroupToken
  | DuplicateName config_section string
  | ConsumedAndProvided string
  | ExposedAndStatic string
  | BadServiceName config_section string alpn_error
  | EmptySecret config_section string
  | RootDirMissing string string
  | RootDirNotADirectory string string

record fs_view =
  path_exists :: "string \<Rightarrow> bool"
  path_is_dir :: "string \<Rightarrow> bool"

text \<open>Rust's \<open>for\<close> over a slice with a body that may return early.\<close>

fun for_each :: "('a \<Rightarrow> 'e + unit) \<Rightarrow> 'a list \<Rightarrow> 'e + unit" where
  "for_each f [] = Inr ()"
| "for_each f (x # xs) = and_then (f x) (\<lambda>_. for_each f xs)"

text \<open>The loops that insert each key into a \<open>HashSet\<close> and stop at the first repetition.\<close>

fun reject_duplicates :: "('a \<Rightarrow> 'k) \<Rightarrow> ('k \<Rightarrow> 'e) \<Rightarrow> 'k list \<Rightarrow> 'a list \<Rightarrow> 'e + unit" where
  "reject_duplicates key err seen [] = Inr ()"
| "reject_duplicates key err seen (x # xs) =
     (if key x \<in> set seen then Inl (err (key x))
      else reject_duplicates key err (key x # seen) xs)"

fun validate_groups :: "string list \<Rightarrow> group_config list \<Rightarrow> validate_error + unit" where
  "validate_groups seen [] = Inr ()"
| "validate_groups seen (g # gs) =
     (if gc_name g \<in> set seen then Inl (DuplicateGroupName (gc_name g))
      else if gc_group_token g = [] then Inl (EmptyGroupTokenOf (gc_name g))
      else validate_groups (gc_name g # seen) gs)"

fun validate_overrides ::
  "'id id_codec \<Rightarrow> 'id list \<Rightarrow> nat \<Rightarrow> relay_rate_override list \<Rightarrow> validate_error + unit" where
  "validate_overrides ir seen idx [] = Inr ()"
| "validate_overrides ir seen idx (ov # ovs) =
     (case parse_endpoint_id ir (ro_node_id ov) of
        None \<Rightarrow> Inl (BadOverrideNodeId idx (ro_node_id ov))
      | Some i \<Rightarrow>
          if i \<in> set seen then Inl (DuplicateOverride idx (ro_node_id ov))
          else validate_overrides ir (i # seen) (Suc idx) ovs)"

definition config_overrides :: "root_config \<Rightarrow> relay_rate_override list" where
  "config_overrides cfg = (case relay cfg of Some r \<Rightarrow> rate_overrides r | None \<Rightarrow> [])"

definition validate_server :: "'id id_codec \<Rightarrow> root_config \<Rightarrow> validate_error + unit" where
  "validate_server ir cfg =
     and_then (validate_groups [] (cfg_groups cfg)) (\<lambda>_.
     validate_overrides ir [] 0 (config_overrides cfg))"

definition lift_alpn :: "config_section \<Rightarrow> string \<Rightarrow> alpn_error + 'a \<Rightarrow> validate_error + unit" where
  "lift_alpn sec name r =
     (case r of Inl e \<Rightarrow> Inl (BadServiceName sec name e) | Inr _ \<Rightarrow> Inr ())"

definition validate_expose_entry :: "expose_config \<Rightarrow> validate_error + unit" where
  "validate_expose_entry e =
     and_then (lift_alpn InExpose (ec_name e) (validate_service_name (ec_name e))) (\<lambda>_.
     if ec_shared_secret e = [] then Inl (EmptySecret InExpose (ec_name e))
     else lift_alpn InExpose (ec_name e) (alpn_for_service (ec_name e)))"

definition validate_static_entry :: "fs_view \<Rightarrow> static_config \<Rightarrow> validate_error + unit" where
  "validate_static_entry fs s =
     and_then (lift_alpn InStatic (sc_name s) (validate_service_name (sc_name s))) (\<lambda>_.
     if sc_shared_secret s = [] then Inl (EmptySecret InStatic (sc_name s))
     else if \<not> path_exists fs (sc_root_dir s) then Inl (RootDirMissing (sc_name s) (sc_root_dir s))
     else if \<not> path_is_dir fs (sc_root_dir s)
       then Inl (RootDirNotADirectory (sc_name s) (sc_root_dir s))
     else lift_alpn InStatic (sc_name s) (alpn_for_service (sc_name s)))"

definition validate_consume_entry :: "consume_config \<Rightarrow> validate_error + unit" where
  "validate_consume_entry c =
     and_then (lift_alpn InConsume (cc_name c) (validate_service_name (cc_name c))) (\<lambda>_.
     if cc_shared_secret c = [] then Inl (EmptySecret InConsume (cc_name c))
     else lift_alpn InConsume (cc_name c) (alpn_for_service (cc_name c)))"

definition validate_client :: "fs_view \<Rightarrow> root_config \<Rightarrow> validate_error + unit" where
  "validate_client fs cfg =
     (if relay cfg \<noteq> None then Inl RelayIsServerOnly
      else
        and_then (ok_or (server_node_id cfg) MissingServerNodeId) (\<lambda>node_id.
        if node_id = [] then Inl EmptyServerNodeId
        else
          and_then (ok_or (cfg_group_token cfg) MissingGroupToken) (\<lambda>token.
          if token = [] then Inl EmptyGroupToken
          else
            let exp_names = map ec_name (expose cfg);
                static_names = map sc_name (static_services cfg) in
            and_then (reject_duplicates ec_name (DuplicateName InExpose) [] (expose cfg)) (\<lambda>_.
            and_then (reject_duplicates cc_name (DuplicateName InConsume) [] (consume cfg)) (\<lambda>_.
            and_then (reject_duplicates sc_name (DuplicateName InStatic) [] (static_services cfg)) (\<lambda>_.
            and_then (for_each (\<lambda>c.
               if cc_name c \<in> set exp_names \<or> cc_name c \<in> set static_names
               then Inl (ConsumedAndProvided (cc_name c)) else Inr ()) (consume cfg)) (\<lambda>_.
            and_then (for_each (\<lambda>e.
               if ec_name e \<in> set static_names
               then Inl (ExposedAndStatic (ec_name e)) else Inr ()) (expose cfg)) (\<lambda>_.
            and_then (for_each validate_expose_entry (expose cfg)) (\<lambda>_.
            and_then (for_each (validate_static_entry fs) (static_services cfg)) (\<lambda>_.
            for_each validate_consume_entry (consume cfg)))))))))))"

definition is_server :: "root_config \<Rightarrow> bool" where
  "is_server cfg \<longleftrightarrow> cfg_groups cfg \<noteq> []"

definition has_client_fields :: "root_config \<Rightarrow> bool" where
  "has_client_fields cfg \<longleftrightarrow> server_node_id cfg \<noteq> None \<or> expose cfg \<noteq> [] \<or> consume cfg \<noteq> []"

definition log_levels :: "string list" where
  "log_levels = [''trace'', ''debug'', ''info'', ''warn'', ''error'']"

definition validate :: "'id id_codec \<Rightarrow> fs_view \<Rightarrow> root_config \<Rightarrow> validate_error + unit" where
  "validate ir fs cfg =
     (let has_server_fields = cfg_groups cfg \<noteq> []; has_client = has_client_fields cfg in
      if has_server_fields \<and> has_client then Inl MixesRoles
      else if \<not> has_server_fields \<and> \<not> has_client then Inl NoRole
      else
        and_then (if has_server_fields then validate_server ir cfg else validate_client fs cfg) (\<lambda>_.
        if level (logging (common cfg)) \<in> set log_levels then Inr ()
        else Inl (UnknownLoggingLevel (level (logging (common cfg))))))"

datatype config_error = ConfigIo string | ConfigParse | ConfigValidate validate_error

definition load :: "'id id_codec \<Rightarrow> fs_view \<Rightarrow> (string \<Rightarrow> string option) \<Rightarrow> (string \<Rightarrow> root_config option)
    \<Rightarrow> string \<Rightarrow> config_error + root_config" where
  "load ir fs read_to_string from_toml path =
     and_then (ok_or (read_to_string path) (ConfigIo path)) (\<lambda>txt.
     and_then (ok_or (from_toml txt) ConfigParse) (\<lambda>cfg.
     (case validate ir fs cfg of Inl e \<Rightarrow> Inl (ConfigValidate e) | Inr _ \<Rightarrow> Inr cfg)))"

section \<open>What a validated configuration satisfies\<close>

text \<open>The rules for a server's and a client's configuration, without an order of checks.\<close>

definition server_config_ok :: "'id id_codec \<Rightarrow> root_config \<Rightarrow> bool" where
  "server_config_ok ir cfg \<longleftrightarrow>
     distinct (map gc_name (cfg_groups cfg)) \<and> (\<forall>g\<in>set (cfg_groups cfg). gc_group_token g \<noteq> []) \<and>
     (let ids = map (\<lambda>o'. parse_endpoint_id ir (ro_node_id o')) (config_overrides cfg)
      in None \<notin> set ids \<and> distinct ids)"

definition client_config_ok :: "fs_view \<Rightarrow> root_config \<Rightarrow> bool" where
  "client_config_ok fs cfg \<longleftrightarrow>
     relay cfg = None \<and> (\<exists>i. server_node_id cfg = Some i \<and> i \<noteq> [])
     \<and> (\<exists>t. cfg_group_token cfg = Some t \<and> t \<noteq> [])
     \<and> distinct (map ec_name (expose cfg) @ map sc_name (static_services cfg) @ map cc_name (consume cfg))
     \<and> (\<forall>e\<in>set (expose cfg). valid_service_name (ec_name e) \<and> ec_shared_secret e \<noteq> [])
     \<and> (\<forall>s\<in>set (static_services cfg). valid_service_name (sc_name s) \<and> sc_shared_secret s \<noteq> []
          \<and> path_exists fs (sc_root_dir s) \<and> path_is_dir fs (sc_root_dir s))
     \<and> (\<forall>c\<in>set (consume cfg). valid_service_name (cc_name c) \<and> cc_shared_secret c \<noteq> [])"

lemma for_each_ok_iff: "for_each f xs = Inr u \<longleftrightarrow> (\<forall>x\<in>set xs. f x = Inr ())"
  by (induction xs) (auto simp: and_then_Inr_iff)

lemma reject_duplicates_ok_iff:
  "reject_duplicates key err seen xs = Inr u \<longleftrightarrow>
     distinct (map key xs) \<and> set (map key xs) \<inter> set seen = {}"
  by (induction xs arbitrary: seen) auto

lemma validate_groups_ok_iff:
  "validate_groups seen gs = Inr u \<longleftrightarrow>
     distinct (map gc_name gs) \<and> set (map gc_name gs) \<inter> set seen = {}
     \<and> (\<forall>g\<in>set gs. gc_group_token g \<noteq> [])"
  by (induction gs arbitrary: seen) auto

lemma validate_overrides_ok_iff:
  "validate_overrides ir seen idx ovs = Inr () \<longleftrightarrow>
     None \<notin> set (map (\<lambda>o'. parse_endpoint_id ir (ro_node_id o')) ovs)
     \<and> distinct (map (\<lambda>o'. parse_endpoint_id ir (ro_node_id o')) ovs)
     \<and> set (map (\<lambda>o'. parse_endpoint_id ir (ro_node_id o')) ovs) \<inter> Some ` set seen = {}"
proof (induction ovs arbitrary: seen idx)
  case Nil
  then show ?case by simp
next
  case (Cons ov ovs)
  show ?case
  proof (cases "parse_endpoint_id ir (ro_node_id ov)")
    case None
    then show ?thesis by simp
  next
    case (Some i)
    then show ?thesis
      by (auto simp: Cons.IH image_iff)
  qed
qed

lemma lift_alpn_ok_iff [simp]: "lift_alpn sec n r = Inr u \<longleftrightarrow> (\<exists>a. r = Inr a)"
  by (cases r) (auto simp: lift_alpn_def)

lemma name_checks_ok_iff [simp]:
  "validate_service_name n = Inr () \<longleftrightarrow> valid_service_name n"
  "(\<exists>a. validate_service_name n = Inr a) \<longleftrightarrow> valid_service_name n"
  "(\<exists>a. alpn_for_service n = Inr a) \<longleftrightarrow> valid_service_name n"
  by (auto simp: validate_service_name_unit alpn_for_service_iff)

lemma entry_checks_ok_iff:
  "validate_expose_entry e = Inr u \<longleftrightarrow> valid_service_name (ec_name e) \<and> ec_shared_secret e \<noteq> []"
  "validate_static_entry fs s = Inr u \<longleftrightarrow> valid_service_name (sc_name s) \<and> sc_shared_secret s \<noteq> []
     \<and> path_exists fs (sc_root_dir s) \<and> path_is_dir fs (sc_root_dir s)"
  "validate_consume_entry c = Inr u \<longleftrightarrow> valid_service_name (cc_name c) \<and> cc_shared_secret c \<noteq> []"
  by (auto simp: validate_expose_entry_def validate_static_entry_def validate_consume_entry_def
      and_then_Inr_iff)

lemma map_error_ok_iff:
  "(case r of Inl e \<Rightarrow> Inl (f e) | Inr (x :: unit) \<Rightarrow> Inr c) = Inr d \<longleftrightarrow> r = Inr () \<and> c = d"
  by (cases r) auto

lemmas config_iffs = and_then_Inr_iff for_each_ok_iff reject_duplicates_ok_iff
  validate_groups_ok_iff validate_overrides_ok_iff entry_checks_ok_iff

lemma validate_server_ok_iff: "validate_server ir cfg = Inr u \<longleftrightarrow> server_config_ok ir cfg"
  by (simp add: validate_server_def server_config_ok_def config_iffs Let_def)

lemma validate_client_ok_iff: "validate_client fs cfg = Inr u \<longleftrightarrow> client_config_ok fs cfg"
  unfolding validate_client_def client_config_ok_def Let_def
  by (simp add: config_iffs if_Inl_ok_iff distinct_append disjoint_iff) (auto simp: image_iff; metis)

section \<open>Properties\<close>

lemma validate_ok_iff:
  "validate ir fs cfg = Inr u \<longleftrightarrow>
     (if is_server cfg then \<not> has_client_fields cfg \<and> server_config_ok ir cfg
      else has_client_fields cfg \<and> client_config_ok fs cfg)
     \<and> level (logging (common cfg)) \<in> set log_levels"
  by (auto simp: validate_def is_server_def Let_def and_then_Inr_iff validate_server_ok_iff
      validate_client_ok_iff)

lemma load_Inr:
  "load ir fs read_to_string from_toml path = Inr cfg \<longleftrightarrow>
    (\<exists>txt. read_to_string path = Some txt \<and> from_toml txt = Some cfg) \<and> validate ir fs cfg = Inr ()"
  by (auto simp: load_def and_then_Inr_iff map_error_ok_iff)

text \<open>
  C17. \<open>load\<close> returns a configuration exactly when the file is readable, parses, and the parsed
  value satisfies the rules of its role: a configuration with groups has none of the client
  fields that are checked, distinct group names with non-empty tokens, and overrides that all
  parse to distinct ids; one without groups names a server and a token, has distinct and valid
  service names across its three tables, non-empty secrets, and existing root directories.
\<close>

theorem load_ok_iff:
  "load ir fs read_to_string from_toml path = Inr cfg \<longleftrightarrow>
     (\<exists>txt. read_to_string path = Some txt \<and> from_toml txt = Some cfg) \<and>
     (if is_server cfg then \<not> has_client_fields cfg \<and> server_config_ok ir cfg
      else has_client_fields cfg \<and> client_config_ok fs cfg) \<and>
     level (logging (common cfg)) \<in> set log_levels"
  unfolding load_Inr validate_ok_iff ..

text \<open>
  The role check does not see every client field: the \<open>[[static]]\<close> table, the group token
  and the reconnect section of a server's configuration have no influence on whether it is
  accepted, whatever they hold.
\<close>

theorem server_validation_ignores_static:
  assumes "is_server cfg"
  shows "validate ir fs (cfg\<lparr>static_services := ss, cfg_group_token := tok, reconnect := rec\<rparr>) =
    validate ir fs cfg"
  using assms
  by (simp add: validate_def is_server_def has_client_fields_def validate_server_def
      config_overrides_def Let_def)

definition two_group_config :: root_config where
  "two_group_config = root_config_default\<lparr>
     cfg_groups := [\<lparr>gc_name = ''a'', gc_group_token = ''t''\<rparr>, \<lparr>gc_name = ''b'', gc_group_token = ''t''\<rparr>]\<rparr>"

theorem server_validation_ignores_static_witness:
  "validate unary_ids \<lparr>path_exists = \<lambda>_. False, path_is_dir = \<lambda>_. False\<rparr>
     (two_group_config\<lparr>
        static_services := [\<lparr>sc_name = ''control'', sc_root_dir = ''/srv'',
          sc_allow_directory_listing = False, sc_shared_secret = []\<rparr>],
        cfg_group_token := Some [], reconnect := reconnect_config_default\<rparr>) = Inr ()"
proof -
  have s: "is_server two_group_config"
    by (simp add: is_server_def two_group_config_def)
  have "validate unary_ids fs two_group_config = Inr ()" for fs
    by (simp add: validate_def validate_server_def has_client_fields_def root_config_default_def
        config_overrides_def logging_config_default_def default_log_level_def log_levels_def
        two_group_config_def)
  then show ?thesis
    unfolding server_validation_ignores_static [OF s] .
qed

end
