(* ===== verification/Hashmap.thy ===== *)
theory Hashmap
  imports Prelude
begin

text \<open>
  The maps of the server's state: \<open>std::collections::HashMap\<close> and \<open>dashmap::DashMap\<close>, of which
  the code uses insertion, lookup, removal and iteration. A map is the list of its entries in
  the order in which an iterator visits them. The libraries leave that order open, so every
  fact of the development about iteration is stated for an arbitrary list of entries.

  The locale \<open>hash_map\<close> is the interface the registry relies on; its lemmas cover the two
  bulk operations of the code (building a map from a list, removing every entry that
  satisfies a test). The interpretation \<open>hm\<close> discharges the laws for the definitions below.
\<close>

type_synonym ('k, 'v) hmap = "('k \<times> 'v) list"

definition hm_empty :: "('k, 'v) hmap" where
  "hm_empty = []"

fun hm_get :: "('k, 'v) hmap \<Rightarrow> 'k \<Rightarrow> 'v option" where
  "hm_get [] k = None"
| "hm_get ((k', v) # m) k = (if k' = k then Some v else hm_get m k)"

fun hm_insert :: "'k \<Rightarrow> 'v \<Rightarrow> ('k, 'v) hmap \<Rightarrow> ('k, 'v) hmap" where
  "hm_insert k v [] = [(k, v)]"
| "hm_insert k v ((k', v') # m) =
     (if k' = k then (k, v) # m else (k', v') # hm_insert k v m)"

definition hm_remove :: "'k \<Rightarrow> ('k, 'v) hmap \<Rightarrow> ('k, 'v) hmap" where
  "hm_remove k m = filter (\<lambda>e. fst e \<noteq> k) m"

definition hm_keys :: "('k, 'v) hmap \<Rightarrow> 'k list" where
  "hm_keys m = map fst m"

definition hm_wf :: "('k, 'v) hmap \<Rightarrow> bool" where
  "hm_wf m \<longleftrightarrow> distinct (hm_keys m)"

section \<open>The interface\<close>

locale hash_map =
  fixes empty :: "'m"
    and get :: "'m \<Rightarrow> 'k \<Rightarrow> 'v option"
    and insert :: "'k \<Rightarrow> 'v \<Rightarrow> 'm \<Rightarrow> 'm"
    and remove :: "'k \<Rightarrow> 'm \<Rightarrow> 'm"
    and entries :: "'m \<Rightarrow> ('k \<times> 'v) list"
    and wf :: "'m \<Rightarrow> bool"
  assumes get_empty: "get empty k = None"
    and get_insert: "wf m \<Longrightarrow> get (insert k v m) k' = (if k' = k then Some v else get m k')"
    and get_remove: "wf m \<Longrightarrow> get (remove k m) k' = (if k' = k then None else get m k')"
    and entries_iff: "wf m \<Longrightarrow> (k, v) \<in> set (entries m) \<longleftrightarrow> get m k = Some v"
    and wf_empty: "wf empty"
    and wf_insert: "wf m \<Longrightarrow> wf (insert k v m)"
    and wf_remove: "wf m \<Longrightarrow> wf (remove k m)"
begin

lemmas laws = get_empty get_insert get_remove entries_iff wf_empty wf_insert wf_remove

lemma wf_remove_all: "wf m \<Longrightarrow> wf (fold remove ks m)"
  by (induction ks arbitrary: m) (auto intro: wf_remove)

lemma get_remove_all:
  "wf m \<Longrightarrow> get (fold remove ks m) k = (if k \<in> set ks then None else get m k)"
  by (induction ks arbitrary: m) (auto simp: get_remove wf_remove)

text \<open>Removing the keys of all entries that satisfy a test keeps exactly the other entries.\<close>

lemma get_remove_where:
  assumes "wf m"
  shows "get (fold remove (map fst (filter P (entries m))) m) k =
     (case get m k of Some v \<Rightarrow> if P (k, v) then None else Some v | None \<Rightarrow> None)"
proof -
  have "k \<in> set (map fst (filter P (entries m))) \<longleftrightarrow> (\<exists>v. get m k = Some v \<and> P (k, v))"
    using assms by (force simp: image_iff entries_iff)
  then show ?thesis
    using assms by (auto simp: get_remove_all split: option.splits)
qed

lemma wf_insert_all: "wf m \<Longrightarrow> wf (fold (\<lambda>(k, v). insert k v) kvs m)"
  by (induction kvs arbitrary: m) (auto intro: wf_insert)

text \<open>Inserting a list of pairs: the last pair of a key wins.\<close>

lemma get_insert_all:
  "wf m \<Longrightarrow> get (fold (\<lambda>(k, v). insert k v) kvs m) k =
     (case map_of (rev kvs) k of Some v \<Rightarrow> Some v | None \<Rightarrow> get m k)"
proof (induction kvs arbitrary: m)
  case Nil
  then show ?case by simp
next
  case (Cons kv kvs)
  obtain k' v' where kv: "kv = (k', v')" by fastforce
  have "get (fold (\<lambda>(k, v). insert k v) kvs (insert k' v' m)) k =
     (case map_of (rev kvs) k of Some v \<Rightarrow> Some v | None \<Rightarrow> get (insert k' v' m) k)"
    using Cons.IH [OF wf_insert [OF Cons.prems]] .
  then show ?case
    using Cons.prems kv by (auto simp: get_insert map_add_def split: option.splits)
qed

lemma get_insert_all_distinct:
  assumes "wf m" and "distinct (map fst kvs)"
  shows "get (fold (\<lambda>(k, v). insert k v) kvs m) k =
     (case map_of kvs k of Some v \<Rightarrow> Some v | None \<Rightarrow> get m k)"
proof -
  have "map_of (rev kvs) k = map_of kvs k"
    using assms(2) by (metis map_of_eqI distinct_rev rev_map set_rev map_of_inject_set
        distinct_map set_map)
  then show ?thesis
    using assms(1) by (simp add: get_insert_all)
qed

end

section \<open>The implementation meets the interface\<close>

lemma hm_get_insert: "hm_get (hm_insert k v m) k' = (if k' = k then Some v else hm_get m k')"
  by (induction m) auto

lemma hm_get_remove: "hm_get (hm_remove k m) k' = (if k' = k then None else hm_get m k')"
  by (induction m) (auto simp: hm_remove_def)

lemma hm_keys_simps [simp]:
  "hm_keys [] = []"
  "hm_keys (e # m) = fst e # hm_keys m"
  by (simp_all add: hm_keys_def)

lemma hm_keys_insert:
  "hm_keys (hm_insert k v m) = (if k \<in> set (hm_keys m) then hm_keys m else hm_keys m @ [k])"
  by (induction m) auto

lemma hm_keys_remove: "hm_keys (hm_remove k m) = filter (\<lambda>k'. k' \<noteq> k) (hm_keys m)"
  by (induction m) (auto simp: hm_keys_def hm_remove_def)

lemma hm_get_None_iff: "hm_get m k = None \<longleftrightarrow> k \<notin> set (hm_keys m)"
  by (induction m) (auto split: if_splits)

lemma hm_get_in_entries: "hm_get m k = Some v \<Longrightarrow> (k, v) \<in> set m"
  by (induction m) (auto split: if_splits)

lemma hm_entries_iff: "hm_wf m \<Longrightarrow> (k, v) \<in> set m \<longleftrightarrow> hm_get m k = Some v"
  by (induction m) (force simp: hm_wf_def hm_keys_def)+

lemma hm_insert_not_Nil [simp]: "hm_insert k v m \<noteq> []"
  by (cases m) (auto split: if_splits)

lemma set_hm_insert: "set (hm_insert k v m) \<subseteq> insert (k, v) (set m)"
  by (induction m) (auto split: if_splits)

lemma hm_insert_entryD: "(k', v') \<in> set (hm_insert k v m) \<Longrightarrow> (k' = k \<and> v' = v) \<or> (k', v') \<in> set m"
  using set_hm_insert by fastforce

lemma hm_remove_entryD: "e \<in> set (hm_remove k m) \<Longrightarrow> e \<in> set m \<and> fst e \<noteq> k"
  by (simp add: hm_remove_def)

lemma distinct_snd_hm_remove: "distinct (map snd m) \<Longrightarrow> distinct (map snd (hm_remove k m))"
  by (simp add: hm_remove_def distinct_map_filter)

lemma distinct_snd_hm_insert:
  "distinct (map snd m) \<Longrightarrow> v \<notin> snd ` set m \<Longrightarrow> distinct (map snd (hm_insert k v m))"
proof (induction m)
  case Nil
  then show ?case by simp
next
  case (Cons e m)
  have "snd ` set (hm_insert k v m) \<subseteq> insert v (snd ` set m)"
    using set_hm_insert [of k v m] by auto
  with Cons show ?case
    by (cases e) (auto simp: image_iff split: if_splits)
qed

lemma hm_get_map_of: "hm_get m = map_of m"
  by (rule ext, induct_tac m) auto

lemma hm_wf_empty [simp]: "hm_wf []"
  by (simp add: hm_wf_def hm_keys_def)

lemma hm_wf_insert: "hm_wf m \<Longrightarrow> hm_wf (hm_insert k v m)"
  by (simp add: hm_wf_def hm_keys_insert)

lemma hm_wf_remove: "hm_wf m \<Longrightarrow> hm_wf (hm_remove k m)"
  by (simp add: hm_wf_def hm_keys_remove)

interpretation hm: hash_map "hm_empty" hm_get hm_insert hm_remove "\<lambda>m. m" hm_wf
  by unfold_locales
    (simp_all add: hm_empty_def hm_get_insert hm_get_remove hm_entries_iff hm_wf_insert
      hm_wf_remove)

lemmas hm_simps = hm_get_insert hm_get_remove hm_wf_insert hm_wf_remove

end
