(* ===== verification/Status.thy ===== *)
theory Status
  imports Hashmap
begin

text \<open>
  \<^verbatim>\<open>crates/client/src/status.rs\<close>: the client's runtime status, which the control-plane task and
  the consumers update. The wall clock is an argument; the \<open>BTreeMap\<close> of consumers is a map of
  entries (its key order is only seen by the JSON printer).
\<close>

datatype control_phase = Unregistered | Registering | Registered_state | Reconnecting

datatype consumer_phase = Idle | Dialing | Live | Failed

record control_status =
  co_state :: control_phase
  last_registered_at_ms :: "int option"
  last_heartbeat_at_ms :: "int option"
  co_last_error :: "string option"

record consumer_status =
  cn_state :: consumer_phase
  cn_mode :: "string option"
  last_attempt_at_ms :: "int option"
  last_success_at_ms :: "int option"
  cn_last_error :: "string option"
  forwarded_streams :: u64

record runtime_status =
  rs_control :: control_status
  rs_consumers :: "(string, consumer_status) hmap"

definition control_status_default :: control_status where
  "control_status_default =
     \<lparr>co_state = Unregistered, last_registered_at_ms = None, last_heartbeat_at_ms = None, co_last_error = None\<rparr>"

definition consumer_status_default :: consumer_status where
  "consumer_status_default =
     \<lparr>cn_state = Idle, cn_mode = None, last_attempt_at_ms = None, last_success_at_ms = None,
      cn_last_error = None, forwarded_streams = 0\<rparr>"

definition new_status :: "string list \<Rightarrow> runtime_status" where
  "new_status names = \<lparr>rs_control = control_status_default,
     rs_consumers = fold (\<lambda>(k, v). hm_insert k v) (map (\<lambda>n. (n, consumer_status_default)) names) hm_empty\<rparr>"

definition set_control_state :: "int \<Rightarrow> control_phase \<Rightarrow> string option \<Rightarrow> runtime_status \<Rightarrow> runtime_status" where
  "set_control_state now state err rs =
     (let g = (rs_control rs)\<lparr>co_state := state, co_last_error := err\<rparr>;
          g' = (if state = Registered_state then g\<lparr>last_registered_at_ms := Some now\<rparr> else g)
      in rs\<lparr>rs_control := g'\<rparr>)"

definition record_heartbeat :: "int \<Rightarrow> runtime_status \<Rightarrow> runtime_status" where
  "record_heartbeat now rs = rs\<lparr>rs_control := (rs_control rs)\<lparr>last_heartbeat_at_ms := Some now\<rparr>\<rparr>"

definition saturating_add :: "u64 \<Rightarrow> u64 \<Rightarrow> u64" where
  "saturating_add a b = (if unat a + unat b < 2 ^ 64 then a + b else - 1)"

definition set_consumer_state ::
  "int \<Rightarrow> string \<Rightarrow> consumer_phase \<Rightarrow> string option \<Rightarrow> string option \<Rightarrow> runtime_status \<Rightarrow> runtime_status" where
  "set_consumer_state now name state mode err rs =
     (let entry = (case hm_get (rs_consumers rs) name of None \<Rightarrow> consumer_status_default | Some e \<Rightarrow> e);
          e1 = entry\<lparr>cn_state := state, cn_mode := mode, last_attempt_at_ms := Some now\<rparr>;
          e2 = (case err of
                  Some e \<Rightarrow> e1\<lparr>cn_last_error := Some e\<rparr>
                | None \<Rightarrow> if state = Live then e1\<lparr>cn_last_error := None\<rparr> else e1);
          e3 = (if state = Live
                then e2\<lparr>last_success_at_ms := Some now,
                       forwarded_streams := saturating_add (forwarded_streams e2) 1\<rparr>
                else e2)
      in rs\<lparr>rs_consumers := hm_insert name e3 (rs_consumers rs)\<rparr>)"

text \<open>
  \<open>snapshot\<close> takes the two locks one after the other, so it joins the control part of one state with
  the consumers of a later one.
\<close>

definition snapshot :: "runtime_status \<Rightarrow> runtime_status \<Rightarrow> runtime_status" where
  "snapshot first second = \<lparr>rs_control = rs_control first, rs_consumers = rs_consumers second\<rparr>"

text \<open>Milliseconds since the epoch, \<open>None\<close> for a clock before it; \<open>as i64\<close> keeps the low 64 bits.\<close>

definition now_ms :: "nat option \<Rightarrow> int" where
  "now_ms since_epoch = (case since_epoch of Some ms \<Rightarrow> sint (of_nat ms :: u64) | None \<Rightarrow> 0)"

section \<open>Facts\<close>

lemma now_ms_exact: "ms < 2 ^ 63 \<Longrightarrow> now_ms (Some ms) = int ms"
  by (simp add: now_ms_def signed_of_nat signed_take_bit_int_eq_self)

lemma snapshot_self [simp]: "snapshot rs rs = rs"
  by (simp add: snapshot_def)

lemma saturating_add_unat: "unat (saturating_add a b) = min (unat a + unat b) (2 ^ 64 - 1)"
proof -
  have "unat (- 1 :: u64) = 2 ^ 64 - 1"
    by (simp add: unsigned_minus_1_eq_mask mask_eq_exp_minus_1)
  then show ?thesis
    by (simp add: saturating_add_def unat_word_ariths)
qed

text \<open>
  What a consumer's record says after an update: the new state and mode, an error exactly when
  one was given or none has been cleared since, and one more success exactly for \<open>Live\<close>.
\<close>

lemma set_consumer_state_entry:
  assumes "hm_get (rs_consumers rs) name = Some e"
  shows "\<exists>e'. hm_get (rs_consumers (set_consumer_state now name state mode err rs)) name = Some e' \<and>
    cn_state e' = state \<and> cn_mode e' = mode \<and> last_attempt_at_ms e' = Some now \<and>
    cn_last_error e' = (if err \<noteq> None then err else if state = Live then None else cn_last_error e) \<and>
    unat (forwarded_streams e') =
      (if state = Live then min (unat (forwarded_streams e) + 1) (2 ^ 64 - 1) else unat (forwarded_streams e))"
  using assms
  by (auto simp: set_consumer_state_def Let_def hm_get_insert saturating_add_unat split: option.splits)

lemma set_consumer_state_other:
  "n \<noteq> name \<Longrightarrow> hm_get (rs_consumers (set_consumer_state now name state mode err rs)) n =
     hm_get (rs_consumers rs) n"
  by (simp add: set_consumer_state_def Let_def hm_get_insert)

end
