(* ===== verification/Consume.thy ===== *)
theory Consume
  imports Connected Config Status
begin

text \<open>
  \<^verbatim>\<open>crates/client/src/consume.rs\<close>: finding the provider of a service (\<open>subscribe\<close>), dialling it
  directly or through the relay, and the retry loop of \<open>dial_stream\<close>; \<open>clamp_backoff\<close> of
  \<^verbatim>\<open>main.rs\<close>. A connection that was dialled is the list of streams that \<open>open_bi\<close> will give on
  it; an empty list makes \<open>open_bi\<close> fail, and \<open>None\<close> is a failed \<open>connect\<close>.
\<close>

type_synonym dialled = "(reader \<times> writer) list option"

section \<open>Subscribing\<close>

datatype subscribe_error =
    SubConnect
  | SubOpenBi
  | SubWrite frame_error
  | SubRead "frame_error fault"
  | HelloRejected u16 string
  | UnexpectedAfterHello frame
  | NoProvider string
  | SubscribeRejected u16 string
  | UnexpectedAfterSubscribe frame
  | InvalidProviderId string

definition client_info_text :: "string \<Rightarrow> string" where
  "client_info_text version = ''meshly-core-client/'' @ version"

text \<open>The \<open>Hello\<close> exchange on one stream; \<open>register_with_server\<close> has the same one.\<close>

definition client_hello ::
  "json_codec \<Rightarrow> string \<Rightarrow> string \<Rightarrow> reader \<times> writer \<Rightarrow> (subscribe_error + unit) \<times> writer" where
  "client_hello js token info rw =
     (case write_to js (Hello \<lparr>group_token = token, client_info = info\<rparr>) (snd rw) of
        (Inl e, w) \<Rightarrow> (Inl (SubWrite e), w)
      | (Inr _, w) \<Rightarrow>
          ((case fst (read_from js (fst rw)) of
              Inl e \<Rightarrow> Inl (SubRead e)
            | Inr (HelloOk h) \<Rightarrow> Inr ()
            | Inr (ControlError code reason) \<Rightarrow> Inl (HelloRejected code reason)
            | Inr other \<Rightarrow> Inl (UnexpectedAfterHello other)), w))"

definition subscribe_request ::
  "json_codec \<Rightarrow> 'id id_codec \<Rightarrow> string \<Rightarrow> reader \<times> writer \<Rightarrow> (subscribe_error + 'id) \<times> writer" where
  "subscribe_request js ir service rw =
     (case write_to js (Subscribe \<lparr>sub_service = service\<rparr>) (snd rw) of
        (Inl e, w) \<Rightarrow> (Inl (SubWrite e), w)
      | (Inr _, w) \<Rightarrow>
          (and_then
            (case fst (read_from js (fst rw)) of
               Inl e \<Rightarrow> Inl (SubRead e)
             | Inr (SubscribeOk ok) \<Rightarrow> ok_or (provider_node_id ok) (NoProvider service)
             | Inr (ControlError code reason) \<Rightarrow> Inl (SubscribeRejected code reason)
             | Inr other \<Rightarrow> Inl (UnexpectedAfterSubscribe other))
            (\<lambda>provider. ok_or (id_from_str ir provider) (InvalidProviderId provider)), w))"

definition subscribe_to ::
  "json_codec \<Rightarrow> 'id id_codec \<Rightarrow> string \<Rightarrow> string \<Rightarrow> string \<Rightarrow> dialled \<Rightarrow> (subscribe_error + 'id) \<times> writer list" where
  "subscribe_to js ir version token service conn =
     (case conn of
        None \<Rightarrow> (Inl SubConnect, [])
      | Some [] \<Rightarrow> (Inl SubOpenBi, [])
      | Some (rw1 # rest) \<Rightarrow>
          (case client_hello js token (client_info_text version) rw1 of
             (Inl e, w1) \<Rightarrow> (Inl e, [w1])
           | (Inr _, w1) \<Rightarrow>
               (case rest of
                  [] \<Rightarrow> (Inl SubOpenBi, [w1])
                | rw2 # _ \<Rightarrow>
                    (case subscribe_request js ir service rw2 of (r, w2) \<Rightarrow> (r, [w1, w2])))))"

lemma client_hello_accepted:
  assumes "json_codec_ok js" and "sendable js (Hello \<lparr>group_token = token, client_info = info\<rparr>)"
    and "sendable js (HelloOk h)"
  shows "client_hello js token info (client_end (sent js (HelloOk h))) =
    (Inr (), sent js (Hello \<lparr>group_token = token, client_info = info\<rparr>))"
  using assms by (simp add: client_hello_def client_end_def wire_simps)

section \<open>Dialling\<close>

datatype dial_failure =
    DialAlpn alpn_error
  | DialConnect
  | DialOpenBi
  | DialDataOpen frame_error
  | DialHandshake dial_error

record consume_spec =
  cs_name :: string
  cs_local_bind :: string
  cs_shared_secret :: bytes

definition dial_direct ::
  "json_codec \<Rightarrow> hmac \<Rightarrow> consume_spec \<Rightarrow> (bytes \<Rightarrow> dialled) \<Rightarrow> dial_failure + reader \<times> writer" where
  "dial_direct js hm spec connect =
     (case alpn_for_service (cs_name spec) of
        Inl e \<Rightarrow> Inl (DialAlpn e)
      | Inr alpn \<Rightarrow>
          (case connect alpn of
             None \<Rightarrow> Inl DialConnect
           | Some [] \<Rightarrow> Inl DialOpenBi
           | Some ((r, w) # _) \<Rightarrow>
               (case consumer_handshake js hm (cs_shared_secret spec) (cs_name spec) r w of
                  (Inl e, r', w') \<Rightarrow> Inl (DialHandshake e)
                | (Inr _, r', w') \<Rightarrow> Inr (r', w'))))"

definition dial_relay ::
  "json_codec \<Rightarrow> hmac \<Rightarrow> 'id id_codec \<Rightarrow> 'id \<Rightarrow> consume_spec \<Rightarrow> 'id \<Rightarrow> (bytes \<Rightarrow> dialled)
     \<Rightarrow> dial_failure + reader \<times> writer" where
  "dial_relay js hm ir own_id spec provider connect =
     (case connect (as_bytes ''meshly-core/data'') of
        None \<Rightarrow> Inl DialConnect
      | Some [] \<Rightarrow> Inl DialOpenBi
      | Some ((r, w) # _) \<Rightarrow>
          (case write_to js (DataOpen (cs_name spec) (id_to_string ir provider) (id_to_string ir own_id)
                  (replicate 32 0)) w of
             (Inl e, w') \<Rightarrow> Inl (DialDataOpen e)
           | (Inr _, w') \<Rightarrow>
               (case consumer_handshake js hm (cs_shared_secret spec) (cs_name spec) r w' of
                  (Inl e, r', w'') \<Rightarrow> Inl (DialHandshake e)
                | (Inr _, r', w'') \<Rightarrow> Inr (r', w''))))"

section \<open>Classifying errors\<close>

text \<open>
  The classifier searches the rendered error. The messages of the handshake are rendered from
  the texts of the code; how numbers, frames and library errors print is the parameter \<open>pr\<close>.
\<close>

record printers =
  pr_code :: "u8 \<Rightarrow> string"
  pr_frame :: "frame \<Rightarrow> string"
  pr_error :: "frame_error fault \<Rightarrow> string"
  pr_alpn :: "alpn_error \<Rightarrow> string"
  pr_connect :: string
  pr_open_bi :: string

definition is_auth_error :: "string \<Rightarrow> bool" where
  "is_auth_error msg \<longleftrightarrow>
     sublist ''provider rejected proof'' msg \<or> sublist ''provider auth err'' msg \<or> sublist ''AuthErr'' msg"

fun handshake_message :: "printers \<Rightarrow> string \<Rightarrow> string \<Rightarrow> string \<Rightarrow> string \<Rightarrow> dial_error \<Rightarrow> string" where
  "handshake_message pr hello auth_err rejected via (HelloWriteFailed e) =
     hello @ '': '' @ pr_error pr (Error e)"
| "handshake_message pr hello auth_err rejected via (FrameFailed e) = pr_error pr e"
| "handshake_message pr hello auth_err rejected via (AuthErrBeforeNonce code reason) =
     auth_err @ '' code='' @ pr_code pr code @ '' reason='' @ reason"
| "handshake_message pr hello auth_err rejected via (ExpectedNonce f) =
     ''expected AuthNonce'' @ via @ '', got '' @ pr_frame pr f"
| "handshake_message pr hello auth_err rejected via (ProofRejected code reason) =
     rejected @ '': code='' @ pr_code pr code @ '' reason='' @ reason"
| "handshake_message pr hello auth_err rejected via (ExpectedAuthOk f) =
     ''expected AuthOk'' @ via @ '', got '' @ pr_frame pr f"
| "handshake_message pr hello auth_err rejected via (LostAfterProof e) =
     rejected @ '': code='' @ pr_code pr AUTH_ERR_BAD_PROOF @ '' reason=connection lost ('' @ pr_error pr e @ '')''"

definition direct_message :: "printers \<Rightarrow> dial_failure \<Rightarrow> string" where
  "direct_message pr e =
     (case e of
        DialAlpn a \<Rightarrow> pr_alpn pr a
      | DialConnect \<Rightarrow> ''connect to provider: '' @ pr_connect pr
      | DialOpenBi \<Rightarrow> pr_open_bi pr
      | DialDataOpen x \<Rightarrow> pr_error pr (Error x)
      | DialHandshake h \<Rightarrow>
          handshake_message pr ''write auth hello'' ''provider auth err'' ''provider rejected proof'' [] h)"

definition relay_message :: "printers \<Rightarrow> dial_failure \<Rightarrow> string" where
  "relay_message pr e =
     (case e of
        DialAlpn a \<Rightarrow> pr_alpn pr a
      | DialConnect \<Rightarrow> ''connect to server relay: '' @ pr_connect pr
      | DialOpenBi \<Rightarrow> pr_open_bi pr
      | DialDataOpen x \<Rightarrow> pr_error pr (Error x)
      | DialHandshake h \<Rightarrow>
          handshake_message pr ''relay: write auth hello'' ''relay auth err'' ''relay auth rejected'' '' from relay'' h)"

section \<open>The retry loop\<close>

text \<open>
  What one turn of the loop meets: the answer of \<open>subscribe\<close> if it is asked, and the outcome of
  dialling a provider directly and through the relay. A list of turns that runs out means that
  the loop is still trying. \<open>'x\<close> is the stream that is handed to the bridge.
\<close>

record ('id, 'x) attempt =
  at_subscribe :: "subscribe_error + 'id"
  at_direct :: "'id \<Rightarrow> dial_failure + 'x"
  at_relay :: "'id \<Rightarrow> dial_failure + 'x"
  at_now :: int

datatype 'x dial_result = Connected string 'x | NoProviderKnown subscribe_error | Unwound | StillTrying

record 'id consumer =
  cm_cached :: "'id option"
  cm_status :: runtime_status

definition ensure_provider_id :: "subscribe_error + 'id \<Rightarrow> 'id consumer \<Rightarrow> (subscribe_error + 'id) \<times> 'id consumer" where
  "ensure_provider_id answer cm =
     (case cm_cached cm of
        Some i \<Rightarrow> (Inr i, cm)
      | None \<Rightarrow> (case answer of Inl e \<Rightarrow> (Inl e, cm) | Inr i \<Rightarrow> (Inr i, cm\<lparr>cm_cached := Some i\<rparr>)))"

definition invalidate_provider_cache :: "'id consumer \<Rightarrow> 'id consumer" where
  "invalidate_provider_cache cm = cm\<lparr>cm_cached := None\<rparr>"

definition set_consumer :: "int \<Rightarrow> string \<Rightarrow> consumer_phase \<Rightarrow> string option \<Rightarrow> string option \<Rightarrow> 'id consumer \<Rightarrow> 'id consumer" where
  "set_consumer now name phase mode err cm = cm\<lparr>cm_status := set_consumer_state now name phase mode err (cm_status cm)\<rparr>"

text \<open>A frame on which the decoder panics does not give an error: it unwinds the task that reads it.\<close>

fun subscribe_panics :: "subscribe_error \<Rightarrow> bool" where
  "subscribe_panics (SubRead Panic) = True"
| "subscribe_panics e = False"

fun dial_panics :: "dial_failure \<Rightarrow> bool" where
  "dial_panics (DialHandshake (FrameFailed Panic)) = True"
| "dial_panics (DialHandshake (LostAfterProof Panic)) = True"
| "dial_panics e = False"

text \<open>
  The relay and what follows when it fails, with the rest of the loop as a function of the state.
  \<open>backoff * 2\<close> wraps around, as it does in a release build. The sleeps are the third result.
\<close>

definition relay_turn ::
  "printers \<Rightarrow> string \<Rightarrow> u64 \<Rightarrow> int \<Rightarrow> ('id consumer \<Rightarrow> 'x dial_result \<times> 'id consumer \<times> u64 list) \<Rightarrow> dial_failure + 'x
     \<Rightarrow> 'id consumer \<Rightarrow> 'x dial_result \<times> 'id consumer \<times> u64 list" where
  "relay_turn pr name backoff now again relayed cm =
     (case relayed of
        Inr x \<Rightarrow> (Connected ''relay'' x, set_consumer now name Live (Some ''relay'') None cm, [])
      | Inl e \<Rightarrow>
          if dial_panics e then (Unwound, cm, [])
          else (case again (set_consumer now name Failed None (Some (relay_message pr e)) cm) of
             (res, cm', sleeps) \<Rightarrow> (res, cm', backoff # sleeps)))"

definition after_direct_error :: "printers \<Rightarrow> dial_failure \<Rightarrow> 'id consumer \<Rightarrow> 'id consumer" where
  "after_direct_error pr e cm = (if is_auth_error (direct_message pr e) then invalidate_provider_cache cm else cm)"

fun dial_loop ::
  "printers \<Rightarrow> reconnect_config \<Rightarrow> string \<Rightarrow> u64 \<Rightarrow> ('id, 'x) attempt list \<Rightarrow> 'id consumer
     \<Rightarrow> 'x dial_result \<times> 'id consumer \<times> u64 list" where
  "dial_loop pr rc name backoff [] cm = (StillTrying, cm, [])"
| "dial_loop pr rc name backoff (tn # ats) cm =
     (case ensure_provider_id (at_subscribe tn) cm of
        (Inl e, cm1) \<Rightarrow> (if subscribe_panics e then Unwound else NoProviderKnown e, cm1, [])
      | (Inr provider, cm1) \<Rightarrow>
          let relay = relay_turn pr name backoff (at_now tn)
                (dial_loop pr rc name (min (backoff * 2) (max_backoff_ms rc)) ats) (at_relay tn provider) in
          if prefer_direct rc then
            (case at_direct tn provider of
               Inr x \<Rightarrow> (Connected ''direct'' x, set_consumer (at_now tn) name Live (Some ''direct'') None cm1, [])
             | Inl e \<Rightarrow> if dial_panics e then (Unwound, cm1, []) else relay (after_direct_error pr e cm1))
          else relay cm1)"

definition dial_stream ::
  "printers \<Rightarrow> reconnect_config \<Rightarrow> string \<Rightarrow> int \<Rightarrow> ('id, 'x) attempt list \<Rightarrow> 'id consumer
     \<Rightarrow> 'x dial_result \<times> 'id consumer \<times> u64 list" where
  "dial_stream pr rc name now attempts cm =
     dial_loop pr rc name (initial_backoff_ms rc) attempts (set_consumer now name Dialing None None cm)"

definition clamp_backoff :: "u64 \<Rightarrow> u64 \<Rightarrow> u64" where
  "clamp_backoff configured lo = (if configured < lo then lo else configured)"

definition consumer_reconnect :: "root_config \<Rightarrow> reconnect_config" where
  "consumer_reconnect cfg =
     \<lparr>initial_backoff_ms = clamp_backoff (initial_backoff_ms (reconnect cfg)) 10,
      max_backoff_ms = clamp_backoff (max_backoff_ms (reconnect cfg)) 100,
      prefer_direct = prefer_direct (reconnect cfg)\<rparr>"

text \<open>The client has a struct \<open>ReconnectConfig\<close> of its own, with the fields and the default of the configuration's.\<close>

definition consume_reconnect_default :: reconnect_config where
  "consume_reconnect_default = \<lparr>initial_backoff_ms = 50, max_backoff_ms = 5000, prefer_direct = True\<rparr>"

lemma default_reconnect_kept: "consumer_reconnect root_config_default = consume_reconnect_default"
  by (simp add: consumer_reconnect_def consume_reconnect_default_def root_config_default_def
      reconnect_config_default_def clamp_backoff_def)

section \<open>The sequence of sleeps\<close>

lemma dial_loop_Cons_sleeps:
  "snd (snd (dial_loop pr rc name b (a # ats) cm)) = [] \<or>
   (\<exists>cm'. snd (snd (dial_loop pr rc name b (a # ats) cm)) =
      b # snd (snd (dial_loop pr rc name (min (b * 2) (max_backoff_ms rc)) ats cm')))"
  by (auto simp: Let_def relay_turn_def split: prod.splits sum.splits option.splits if_splits) (metis snd_conv)+

text \<open>The delays that follow a delay of \<open>b\<close>.\<close>

definition next_backoff :: "reconnect_config \<Rightarrow> u64 \<Rightarrow> u64" where
  "next_backoff rc b = min (b * 2) (max_backoff_ms rc)"

lemma dial_loop_sleeps:
  "snd (snd (dial_loop pr rc name b ats cm)) =
     map (\<lambda>k. (next_backoff rc ^^ k) b) [0..<length (snd (snd (dial_loop pr rc name b ats cm)))]"
proof (induction ats arbitrary: b cm)
  case Nil
  then show ?case by simp
next
  case (Cons a ats)
  consider "snd (snd (dial_loop pr rc name b (a # ats) cm)) = []"
    | cm' where "snd (snd (dial_loop pr rc name b (a # ats) cm)) =
      b # snd (snd (dial_loop pr rc name (next_backoff rc b) ats cm'))"
    using dial_loop_Cons_sleeps [of pr rc name b a ats cm] unfolding next_backoff_def by blast
  then show ?case
  proof cases
    case 1
    then show ?thesis by simp
  next
    case (2 cm')
    define s where "s = snd (snd (dial_loop pr rc name (next_backoff rc b) ats cm'))"
    have s: "s = map (\<lambda>k. (next_backoff rc ^^ k) (next_backoff rc b)) [0..<length s]"
      unfolding s_def by (rule Cons.IH)
    have "b # s = map (\<lambda>k. (next_backoff rc ^^ k) b) [0..<Suc (length s)]"
      by (subst s) (simp add: map_upt_Suc funpow_swap1 del: upt_Suc)
    then show ?thesis
      unfolding 2 s_def [symmetric] by simp
  qed
qed

lemma next_backoff_iter:
  assumes "initial_backoff_ms rc \<le> max_backoff_ms rc" and "unat (max_backoff_ms rc) < 2 ^ 63"
  shows "unat ((next_backoff rc ^^ k) (initial_backoff_ms rc)) =
    min (unat (initial_backoff_ms rc) * 2 ^ k) (unat (max_backoff_ms rc))"
proof (induction k)
  case 0
  then show ?case using assms(1) by (simp add: word_le_nat_alt)
next
  case (Suc k)
  let ?b = "(next_backoff rc ^^ k) (initial_backoff_ms rc)"
  have "unat ?b < 2 ^ 63"
    using Suc assms(2) by simp
  then have "unat (?b * 2) = 2 * unat ?b"
    by (simp add: unat_word_ariths)
  then have "unat (next_backoff rc ?b) = min (2 * unat ?b) (unat (max_backoff_ms rc))"
    by (auto simp: next_backoff_def min_def word_le_nat_alt)
  then show ?case
    by (simp add: Suc min_def)
qed

section \<open>The provider cache\<close>

lemma cached_set_consumer [simp]: "cm_cached (set_consumer now name ph mode err cm) = cm_cached cm"
  by (simp add: set_consumer_def)

lemma rejection_is_auth_error:
  "is_auth_error (direct_message pr (DialHandshake (ProofRejected code reason)))"
  "is_auth_error (direct_message pr (DialHandshake (LostAfterProof e)))"
  "is_auth_error (direct_message pr (DialHandshake (AuthErrBeforeNonce code reason)))"
proof -
  have "sublist s (s @ rest)" for s rest :: string
    by (simp add: sublist_appendI [of s "[]", simplified])
  then show "is_auth_error (direct_message pr (DialHandshake (ProofRejected code reason)))"
    "is_auth_error (direct_message pr (DialHandshake (LostAfterProof e)))"
    "is_auth_error (direct_message pr (DialHandshake (AuthErrBeforeNonce code reason)))"
    unfolding is_auth_error_def direct_message_def dial_failure.case handshake_message.simps by blast+
qed

lemma relay_only_loop:
  assumes "\<not> prefer_direct rc" and "cm_cached cm = Some p" and "\<forall>a\<in>set ats. \<exists>e. at_relay a p = Inl e \<and> \<not> dial_panics e"
  shows "\<exists>cm' sleeps. dial_loop pr rc name b ats cm = (StillTrying, cm', sleeps) \<and>
    cm_cached cm' = Some p \<and> length sleeps = length ats"
  using assms(2,3)
proof (induction ats arbitrary: b cm)
  case Nil
  then show ?case by simp
next
  case (Cons a ats)
  obtain e where e: "at_relay a p = Inl e" "\<not> dial_panics e" using Cons.prems(2) by auto
  let ?cm = "set_consumer (at_now a) name Failed None (Some (relay_message pr e)) cm"
  obtain cm' sleeps where "dial_loop pr rc name (min (b * 2) (max_backoff_ms rc)) ats ?cm = (StillTrying, cm', sleeps)"
    "cm_cached cm' = Some p" "length sleeps = length ats"
    using Cons.IH [of ?cm "min (b * 2) (max_backoff_ms rc)"] Cons.prems by auto
  then show ?case
    using assms(1) Cons.prems(1) e by (simp add: ensure_provider_id_def relay_turn_def)
qed

section \<open>Examples\<close>

definition plain_printers :: printers where
  "plain_printers = \<lparr>pr_code = (\<lambda>_. ''1''), pr_frame = (\<lambda>_. ''frame''), pr_error = (\<lambda>_. ''error''),
     pr_alpn = (\<lambda>_. ''alpn''), pr_connect = ''refused'', pr_open_bi = ''closed''\<rparr>"

definition demo_reconnect :: "bool \<Rightarrow> reconnect_config" where
  "demo_reconnect direct = \<lparr>initial_backoff_ms = 50, max_backoff_ms = 300, prefer_direct = direct\<rparr>"

text \<open>
  A turn in which the provider rejects the proof on both paths, one in which it cannot be reached
  directly, and one in which the old and the new provider are there.
\<close>

definition rejected_turn :: "(nat, string) attempt" where
  "rejected_turn = \<lparr>at_subscribe = Inr 8, at_direct = (\<lambda>_. Inl (DialHandshake (ProofRejected 1 ''bad''))),
     at_relay = (\<lambda>_. Inl (DialHandshake (ProofRejected 1 ''bad''))), at_now = 4\<rparr>"

definition unreached_turn :: "(nat, string) attempt" where
  "unreached_turn = rejected_turn\<lparr>at_direct := (\<lambda>_. Inl DialConnect)\<rparr>"

definition working_turn :: "(nat, string) attempt" where
  "working_turn = \<lparr>at_subscribe = Inr 8,
     at_direct = (\<lambda>p. if p = 8 then Inr ''stream'' else Inr ''old stream''),
     at_relay = (\<lambda>_. Inl DialConnect), at_now = 5\<rparr>"

definition demo_consumer :: "nat consumer" where
  "demo_consumer = \<lparr>cm_cached = Some 3, cm_status = new_status [''ssh'']\<rparr>"

section \<open>Properties\<close>

text \<open>
  C31. The delays of the retry loop are an exponential backoff with a cap: the \<open>k\<close>-th delay is
  the initial one doubled \<open>k\<close> times, or the maximum, whichever is less, as long as the initial
  delay is within the maximum and the maximum below \<open>2^63\<close> milliseconds.
\<close>

theorem dial_backoff_sequence:
  assumes "initial_backoff_ms rc \<le> max_backoff_ms rc" and "unat (max_backoff_ms rc) < 2 ^ 63"
    and "dial_stream pr rc name now attempts cm = (res, cm', sleeps)" and "k < length sleeps"
  shows "unat (sleeps ! k) = min (unat (initial_backoff_ms rc) * 2 ^ k) (unat (max_backoff_ms rc))"
proof -
  have "sleeps ! k = (next_backoff rc ^^ k) (initial_backoff_ms rc)"
    using dial_loop_sleeps [of pr rc name "initial_backoff_ms rc" attempts
        "set_consumer now name Dialing None None cm"] assms(3,4)
    by (metis (no_types, lifting) add_0 dial_stream_def nth_map_upt minus_nat.diff_0 snd_conv)
  then show ?thesis
    using next_backoff_iter [OF assms(1,2)] by simp
qed

theorem dial_backoff_sequence_witness:
  "\<exists>res cm' sleeps. dial_stream plain_printers (demo_reconnect False) ''ssh'' 0 (replicate 4 rejected_turn)
     demo_consumer = (res, cm', sleeps) \<and> unat (sleeps ! 3) = 300"
proof -
  let ?run = "dial_stream plain_printers (demo_reconnect False) ''ssh'' 0 (replicate 4 rejected_turn) demo_consumer"
  have four: "replicate 4 rejected_turn = [rejected_turn, rejected_turn, rejected_turn, rejected_turn]"
    by (simp add: numeral_eq_Suc)
  have l: "length (snd (snd ?run)) = 4"
    unfolding four by (simp add: dial_stream_def demo_reconnect_def rejected_turn_def demo_consumer_def
        ensure_provider_id_def set_consumer_def relay_turn_def)
  obtain res cm' sleeps where r: "?run = (res, cm', sleeps)"
    using prod_cases3 by blast
  with l have k: "3 < length sleeps" by simp
  have rc: "initial_backoff_ms (demo_reconnect False) \<le> max_backoff_ms (demo_reconnect False)"
    "unat (max_backoff_ms (demo_reconnect False)) < 2 ^ 63"
    by (simp_all add: demo_reconnect_def)
  from dial_backoff_sequence [OF rc r k] r show ?thesis
    by (simp add: demo_reconnect_def)
qed

text \<open>
  C33. Which failures replace the provider. A consumer with a cached provider \<open>p\<close> cannot reach it
  directly, nor through the relay, and tries again after the initial delay. If the direct failure was
  a rejection (an \<open>AuthErr\<close> instead of the nonce, an \<open>AuthErr\<close> after the proof, or a stream lost while
  the answer is awaited), or its message has one of the three texts the code looks for, then the
  next turn asks the server and dials the provider \<open>q\<close> it names, and \<open>q\<close> is the one that is cached from
  then on. If the message has none of the three texts, the next turn dials \<open>p\<close> again, and \<open>p\<close> stays
  cached, whatever the server would answer and however the relay failed.
\<close>

theorem provider_replaced_when_rejected:
  assumes "prefer_direct rc" and "cm_cached cm = Some p"
    and "at_direct a1 p = Inl e" and "\<not> dial_panics e"
    and "at_relay a1 p = Inl relay_err" and "\<not> dial_panics relay_err"
    and "at_subscribe a2 = Inr q" and "at_direct a2 p = Inr x" and "at_direct a2 q = Inr y"
  shows
    "((\<exists>code reason lost. e = DialHandshake (ProofRejected code reason)
         \<or> e = DialHandshake (AuthErrBeforeNonce code reason) \<or> e = DialHandshake (LostAfterProof lost))
       \<or> sublist ''provider rejected proof'' (direct_message pr e) \<or> sublist ''provider auth err'' (direct_message pr e)
       \<or> sublist ''AuthErr'' (direct_message pr e) \<longrightarrow>
       (\<exists>cm'. dial_stream pr rc name now (a1 # a2 # ats) cm = (Connected ''direct'' y, cm', [initial_backoff_ms rc]) \<and>
          cm_cached cm' = Some q)) \<and>
     (\<not> sublist ''provider rejected proof'' (direct_message pr e) \<and> \<not> sublist ''provider auth err'' (direct_message pr e)
       \<and> \<not> sublist ''AuthErr'' (direct_message pr e) \<longrightarrow>
       (\<exists>cm'. dial_stream pr rc name now (a1 # a2 # ats) cm = (Connected ''direct'' x, cm', [initial_backoff_ms rc]) \<and>
          cm_cached cm' = Some p))"
    (is "(?rejected \<or> ?texts \<longrightarrow> ?replaced) \<and> (?none \<longrightarrow> ?kept)")
proof -
  have auth: "?rejected \<or> ?texts \<longleftrightarrow> is_auth_error (direct_message pr e)" "?none \<longleftrightarrow> \<not> is_auth_error (direct_message pr e)"
    using rejection_is_auth_error unfolding is_auth_error_def by blast+
  show ?thesis
    unfolding auth using assms
    by (simp add: dial_stream_def ensure_provider_id_def relay_turn_def after_direct_error_def invalidate_provider_cache_def)
qed

theorem provider_replaced_when_rejected_witness:
  "(\<exists>cm'. dial_stream plain_printers (demo_reconnect True) ''ssh'' 0 [rejected_turn, working_turn] demo_consumer =
      (Connected ''direct'' ''stream'', cm', [50]) \<and> cm_cached cm' = Some 8) \<and>
   (\<exists>cm'. dial_stream plain_printers (demo_reconnect True) ''ssh'' 0 [unreached_turn, working_turn] demo_consumer =
      (Connected ''direct'' ''old stream'', cm', [50]) \<and> cm_cached cm' = Some 3)"
proof -
  have texts: "\<not> sublist ''provider rejected proof'' (direct_message plain_printers DialConnect)"
    "\<not> sublist ''provider auth err'' (direct_message plain_printers DialConnect)"
    "\<not> sublist ''AuthErr'' (direct_message plain_printers DialConnect)"
    by (simp_all add: direct_message_def plain_printers_def sublist_code)
  show ?thesis
    using provider_replaced_when_rejected [of "demo_reconnect True" demo_consumer 3 rejected_turn
        "DialHandshake (ProofRejected 1 ''bad'')" "DialHandshake (ProofRejected 1 ''bad'')" working_turn 8
        "''old stream''" "''stream''" plain_printers "''ssh''" 0 "[]"]
      provider_replaced_when_rejected [of "demo_reconnect True" demo_consumer 3 unreached_turn
        DialConnect "DialHandshake (ProofRejected 1 ''bad'')" working_turn 8
        "''old stream''" "''stream''" plain_printers "''ssh''" 0 "[]"] texts
    by (simp add: demo_reconnect_def demo_consumer_def rejected_turn_def unreached_turn_def working_turn_def)
qed

text \<open>
  A rejection on the relay path has no such effect, although the comment in \<open>dial_relay\<close>
  says that it invalidates the cached provider: with direct dialling switched off, a consumer
  with a cached provider never asks the server again. As long as the relay does not reach that
  provider, the loop goes on for ever, whatever the server would answer.
\<close>

theorem relay_failures_keep_stale_provider:
  assumes "\<not> prefer_direct rc" and "cm_cached cm = Some p" 
    and "\<forall>a\<in>set attempts. \<exists>e. at_relay a p = Inl e \<and> \<not> dial_panics e"
  shows "\<exists>cm' sleeps. dial_stream pr rc name now attempts cm = (StillTrying, cm', sleeps) \<and>
    cm_cached cm' = Some p \<and> length sleeps = length attempts"
  unfolding dial_stream_def using relay_only_loop [OF assms(1) _ assms(3)] assms(2) by simp

theorem relay_failures_keep_stale_provider_witness:
  "\<exists>cm' sleeps. dial_stream plain_printers (demo_reconnect False) ''ssh'' 0 (replicate 1000 rejected_turn)
     demo_consumer = (StillTrying, cm', sleeps) \<and> cm_cached cm' = Some 3 \<and>
     length sleeps = length (replicate 1000 rejected_turn)"
  by (rule relay_failures_keep_stale_provider)
    (simp_all add: demo_reconnect_def demo_consumer_def rejected_turn_def)

end
