(* ===== verification/Tunnel.thy ===== *)
theory Tunnel
  imports Protocol
begin

text \<open>
  \<^verbatim>\<open>crates/common/src/tunnel.rs\<close>: \<open>BiStream\<close>, which glues the two halves of a stream together, and
  \<open>bridge\<close>, which copies between two streams. The traits \<open>AsyncRead\<close> and \<open>AsyncWrite\<close> are the locales
  \<open>async_read\<close> and \<open>async_write\<close>; \<open>byte_stream\<close> is a stream with both, on which reading and writing
  do not disturb each other. \<open>BiStream\<close> of any two halves is such a stream (a sublocale), and the
  interpretation \<open>rw\<close> gives it for the readers and writers of the theory \<open>Protocol\<close>.

  \<open>tokio::io::copy_bidirectional\<close> is a library function: it is the parameter \<open>copy\<close>, and
  \<open>copies_both_ways\<close> is what its documentation promises of it.
\<close>

section \<open>Polling\<close>

datatype 'a poll = Pending | Ready "io_error + 'a"

text \<open>A poll of a reader offers a buffer of some capacity; a poll of a writer offers bytes.\<close>

locale async_read =
  fixes poll_read :: "nat \<Rightarrow> 'r \<Rightarrow> bytes poll \<times> 'r"
    and to_come :: "'r \<Rightarrow> bytes"
  assumes read_some: "poll_read n r = (Ready (Inr bs), r') \<Longrightarrow> length bs \<le> n \<and> to_come r = bs @ to_come r'"
    and read_pending: "poll_read n r = (Pending, r') \<Longrightarrow> to_come r' = to_come r"
begin

text \<open>Whatever the capacities, the pieces that successful polls return are the stream, in order.\<close>

fun read_polls :: "nat list \<Rightarrow> 'r \<Rightarrow> bytes \<times> 'r" where
  "read_polls [] r = ([], r)"
| "read_polls (n # ns) r =
     (case poll_read n r of
        (Ready (Inr bs), r') \<Rightarrow> (case read_polls ns r' of (bs', r'') \<Rightarrow> (bs @ bs', r''))
      | (Pending, r') \<Rightarrow> read_polls ns r'
      | (Ready (Inl e), r') \<Rightarrow> ([], r))"

lemma read_polls_in_order: "read_polls ns r = (bs, r') \<Longrightarrow> to_come r = bs @ to_come r'"
  by (induction ns r arbitrary: bs r' rule: read_polls.induct)
    (auto split: prod.splits poll.splits sum.splits dest: read_some read_pending)

end

locale async_write =
  fixes poll_write :: "bytes \<Rightarrow> 'w \<Rightarrow> nat poll \<times> 'w"
    and poll_flush :: "'w \<Rightarrow> unit poll \<times> 'w"
    and poll_shutdown :: "'w \<Rightarrow> unit poll \<times> 'w"
    and written :: "'w \<Rightarrow> bytes"
  assumes write_some: "poll_write bs w = (Ready (Inr n), w') \<Longrightarrow> n \<le> length bs \<and> written w' = written w @ take n bs"
    and write_none: "poll_write bs w = (p, w') \<Longrightarrow> (\<And>n. p \<noteq> Ready (Inr n)) \<Longrightarrow> written w' = written w"
    and flush_keeps: "written (snd (poll_flush w)) = written w"
    and shutdown_keeps: "written (snd (poll_shutdown w)) = written w"

locale byte_stream =
  async_read poll_read to_come + async_write poll_write poll_flush poll_shutdown written
  for poll_read :: "nat \<Rightarrow> 's \<Rightarrow> bytes poll \<times> 's" and to_come
    and poll_write :: "bytes \<Rightarrow> 's \<Rightarrow> nat poll \<times> 's" and poll_flush poll_shutdown written +
  assumes read_keeps_written: "written (snd (poll_read n s)) = written s"
    and write_keeps_to_come: "to_come (snd (poll_write bs s)) = to_come s"
    and flush_keeps_to_come: "to_come (snd (poll_flush s)) = to_come s"
    and shutdown_keeps_to_come: "to_come (snd (poll_shutdown s)) = to_come s"

section \<open>BiStream\<close>

record ('r, 'w) bistream =
  reader_half :: 'r
  writer_half :: 'w

definition bistream_new :: "'r \<Rightarrow> 'w \<Rightarrow> ('r, 'w) bistream" where
  "bistream_new r w = \<lparr>reader_half = r, writer_half = w\<rparr>"

definition on_reader :: "('r \<Rightarrow> 'p \<times> 'r) \<Rightarrow> ('r, 'w) bistream \<Rightarrow> 'p \<times> ('r, 'w) bistream" where
  "on_reader f s = (case f (reader_half s) of (p, r') \<Rightarrow> (p, s\<lparr>reader_half := r'\<rparr>))"

definition on_writer :: "('w \<Rightarrow> 'p \<times> 'w) \<Rightarrow> ('r, 'w) bistream \<Rightarrow> 'p \<times> ('r, 'w) bistream" where
  "on_writer f s = (case f (writer_half s) of (p, w') \<Rightarrow> (p, s\<lparr>writer_half := w'\<rparr>))"

definition bistream_poll_read :: "(nat \<Rightarrow> 'r \<Rightarrow> bytes poll \<times> 'r) \<Rightarrow> nat \<Rightarrow> ('r, 'w) bistream \<Rightarrow> bytes poll \<times> ('r, 'w) bistream" where
  "bistream_poll_read poll_read n = on_reader (poll_read n)"

definition bistream_poll_write :: "(bytes \<Rightarrow> 'w \<Rightarrow> nat poll \<times> 'w) \<Rightarrow> bytes \<Rightarrow> ('r, 'w) bistream \<Rightarrow> nat poll \<times> ('r, 'w) bistream" where
  "bistream_poll_write poll_write bs = on_writer (poll_write bs)"

definition bistream_poll_flush :: "('w \<Rightarrow> unit poll \<times> 'w) \<Rightarrow> ('r, 'w) bistream \<Rightarrow> unit poll \<times> ('r, 'w) bistream" where
  "bistream_poll_flush poll_flush = on_writer poll_flush"

definition bistream_poll_shutdown :: "('w \<Rightarrow> unit poll \<times> 'w) \<Rightarrow> ('r, 'w) bistream \<Rightarrow> unit poll \<times> ('r, 'w) bistream" where
  "bistream_poll_shutdown poll_shutdown = on_writer poll_shutdown"

lemmas bistream_defs = bistream_poll_read_def bistream_poll_write_def bistream_poll_flush_def
  bistream_poll_shutdown_def

lemma on_half_snd [simp]:
  "reader_half (snd (on_reader f s)) = snd (f (reader_half s))" "writer_half (snd (on_reader f s)) = writer_half s"
  "writer_half (snd (on_writer g s)) = snd (g (writer_half s))" "reader_half (snd (on_writer g s)) = reader_half s"
  by (simp_all add: on_reader_def on_writer_def split: prod.splits)

lemma on_half_eqD:
  "on_reader f s = (p, s') \<Longrightarrow> f (reader_half s) = (p, reader_half s')"
  "on_writer g s = (p, s') \<Longrightarrow> g (writer_half s) = (p, writer_half s')"
  by (auto simp: on_reader_def on_writer_def split: prod.splits)

text \<open>Two halves make a stream.\<close>

locale stream_halves =
  rd: async_read poll_read to_come + wr: async_write poll_write poll_flush poll_shutdown written
  for poll_read :: "nat \<Rightarrow> 'r \<Rightarrow> bytes poll \<times> 'r" and to_come
    and poll_write :: "bytes \<Rightarrow> 'w \<Rightarrow> nat poll \<times> 'w" and poll_flush poll_shutdown written

sublocale stream_halves \<subseteq> byte_stream "bistream_poll_read poll_read" "\<lambda>s. to_come (reader_half s)"
  "bistream_poll_write poll_write" "bistream_poll_flush poll_flush" "bistream_poll_shutdown poll_shutdown"
  "\<lambda>s. written (writer_half s)"
  by unfold_locales
    (auto simp: bistream_defs wr.flush_keeps wr.shutdown_keeps dest!: on_half_eqD
      dest: rd.read_some rd.read_pending wr.write_some intro: wr.write_none)

section \<open>The halves of the model\<close>

text \<open>
  The readers and writers of the protocol, polled: a reader returns what has arrived, up to the
  capacity, an empty piece at the end of the stream, and an error when the connection was lost; a
  writer takes what the peer still accepts.
\<close>

definition reader_poll_read :: "nat \<Rightarrow> reader \<Rightarrow> bytes poll \<times> reader" where
  "reader_poll_read n r =
     (if r_in r = [] \<and> r_end r = Lost then (Ready (Inl ConnectionLost), r)
      else (Ready (Inr (take n (r_in r))), r\<lparr>r_in := drop n (r_in r)\<rparr>))"

definition writer_poll_write :: "bytes \<Rightarrow> writer \<Rightarrow> nat poll \<times> writer" where
  "writer_poll_write bs w =
     (case w_budget w of
        None \<Rightarrow> (Ready (Inr (length bs)), w\<lparr>w_out := w_out w @ bs\<rparr>)
      | Some b \<Rightarrow>
          if b = 0 \<and> bs \<noteq> [] then (Ready (Inl ConnectionLost), w)
          else (let n = min b (length bs)
                in (Ready (Inr n), w\<lparr>w_out := w_out w @ take n bs, w_budget := Some (b - n)\<rparr>)))"

definition writer_poll_done :: "writer \<Rightarrow> unit poll \<times> writer" where
  "writer_poll_done w = (Ready (Inr ()), w)"

interpretation rw: stream_halves reader_poll_read r_in writer_poll_write writer_poll_done writer_poll_done w_out
  by unfold_locales
    (auto simp: reader_poll_read_def writer_poll_write_def writer_poll_done_def Let_def
      split: if_splits option.splits)

text \<open>
  \<open>write_all\<close> is the loop of \<open>AsyncWriteExt\<close> over these polls, and \<open>read_exact\<close> that of \<open>AsyncReadExt\<close>.
\<close>

function write_all_loop :: "bytes \<Rightarrow> writer \<Rightarrow> (io_error + unit) \<times> writer" where
  "write_all_loop bs w =
     (if bs = [] then (Inr (), w)
      else (case writer_poll_write bs w of
              (Ready (Inr n), w') \<Rightarrow> if n = 0 then (Inl ConnectionLost, w') else write_all_loop (drop n bs) w'
            | (Ready (Inl e), w') \<Rightarrow> (Inl e, w')
            | (Pending, w') \<Rightarrow> (Inl ConnectionLost, w')))"
  by pat_completeness auto
termination
  by (relation "measure (\<lambda>(bs, w). length bs)") auto

lemma write_all_by_polls: "write_all bs w = write_all_loop bs w"
proof (induction bs w rule: write_all_loop.induct)
  case (1 bs w)
  show ?case
  proof (cases "bs = [] \<or> w_budget w = None \<or> w_budget w = Some 0")
    case True
    then show ?thesis
      by (cases "w_budget w")
        (auto simp: write_all_def writer_poll_write_def split: if_splits)
  next
    case False
    then obtain b where b: "w_budget w = Some b" "0 < b" "bs \<noteq> []" by auto
    let ?n = "min b (length bs)"
    let ?w = "w\<lparr>w_out := w_out w @ take ?n bs, w_budget := Some (b - ?n)\<rparr>"
    have p: "writer_poll_write bs w = (Ready (Inr ?n), ?w)" and n: "?n \<noteq> 0"
      using b by (simp_all add: writer_poll_write_def Let_def)
    have "write_all (drop ?n bs) ?w = write_all_loop (drop ?n bs) ?w"
      using 1 [OF b(3) p [symmetric] refl refl n] .
    moreover have "write_all bs w = write_all (drop ?n bs) ?w"
      using b by (auto simp: write_all_def min_def)
    ultimately show ?thesis
      using b p n by (subst write_all_loop.simps) simp
  qed
qed


function read_exact_loop :: "nat \<Rightarrow> bytes \<Rightarrow> reader \<Rightarrow> (io_error + bytes) \<times> reader" where
  "read_exact_loop n got r =
     (if n = 0 then (Inr got, r)
      else (case reader_poll_read n r of
              (Ready (Inr bs), r') \<Rightarrow>
                if bs = [] then (Inl UnexpectedEof, r') else read_exact_loop (n - length bs) (got @ bs) r'
            | (Ready (Inl e), r') \<Rightarrow> (Inl e, r')
            | (Pending, r') \<Rightarrow> (Inl ConnectionLost, r')))"
  by pat_completeness auto
termination
  by (relation "measure (\<lambda>(n, got, r). n)") auto

lemma read_exact_by_polls: "read_exact n r = read_exact_loop n [] r"
proof (cases "n \<le> length (r_in r)")
  case True
  then show ?thesis
    by (cases "n = 0") (auto simp: read_exact_def reader_poll_read_def)
next
  case False
  then show ?thesis
    by (cases "r_in r = []"; cases "r_end r")
      (auto simp: read_exact_def reader_poll_read_def)
qed

section \<open>The bridge\<close>

record bridge_stats =
  a_to_b :: u64
  b_to_a :: u64

text \<open>
  The outcome of copying, with both streams as they are left. An error returns at once; after a
  success both sides are shut down once more, and the results of that are ignored.
\<close>

definition bridge ::
  "('a \<Rightarrow> 'b \<Rightarrow> (io_error + u64 \<times> u64) \<times> 'a \<times> 'b) \<Rightarrow> ('a \<Rightarrow> unit poll \<times> 'a) \<Rightarrow> ('b \<Rightarrow> unit poll \<times> 'b)
     \<Rightarrow> 'a \<Rightarrow> 'b \<Rightarrow> (io_error + bridge_stats) \<times> 'a \<times> 'b" where
  "bridge copy shutdown_a shutdown_b a b =
     (case copy a b of
        (Inl e, a', b') \<Rightarrow> (Inl e, a', b')
      | (Inr (x, y), a', b') \<Rightarrow> (Inr \<lparr>a_to_b = x, b_to_a = y\<rparr>, snd (shutdown_a a'), snd (shutdown_b b')))"

text \<open>A socket of the operating system and a stream of iroh have the same two halves here.\<close>

type_synonym duplex = "(reader, writer) bistream"
type_synonym copier = "duplex \<Rightarrow> duplex \<Rightarrow> (io_error + u64 \<times> u64) \<times> duplex \<times> duplex"

definition bridge_duplex :: "copier \<Rightarrow> duplex \<Rightarrow> duplex \<Rightarrow> (io_error + bridge_stats) \<times> duplex \<times> duplex" where
  "bridge_duplex copy =
     bridge copy (bistream_poll_shutdown writer_poll_done) (bistream_poll_shutdown writer_poll_done)"

text \<open>
  What \<open>copy_bidirectional\<close> promises: when it returns the two counts, each reader was read to its
  end, all of it was written to the other side, and the counts are the numbers of bytes.
\<close>

definition copies_both_ways :: "copier \<Rightarrow> bool" where
  "copies_both_ways copy \<longleftrightarrow>
     (\<forall>a b x y a' b'. copy a b = (Inr (x, y), a', b') \<longrightarrow>
        r_in (reader_half a') = [] \<and> r_in (reader_half b') = [] \<and>
        w_out (writer_half b') = w_out (writer_half b) @ r_in (reader_half a) \<and>
        w_out (writer_half a') = w_out (writer_half a) @ r_in (reader_half b) \<and>
        x = of_nat (length (r_in (reader_half a))) \<and> y = of_nat (length (r_in (reader_half b))))"

lemma bridge_copies:
  assumes "copies_both_ways copy" and "bridge_duplex copy a b = (Inr st, a', b')"
  shows "w_out (writer_half b') = w_out (writer_half b) @ r_in (reader_half a)"
    and "w_out (writer_half a') = w_out (writer_half a) @ r_in (reader_half b)"
    and "a_to_b st = of_nat (length (r_in (reader_half a)))"
    and "b_to_a st = of_nat (length (r_in (reader_half b)))"
proof -
  obtain x y a1 b1 where c: "copy a b = (Inr (x, y), a1, b1)"
    and st: "st = \<lparr>a_to_b = x, b_to_a = y\<rparr>" "a' = snd (bistream_poll_shutdown writer_poll_done a1)"
      "b' = snd (bistream_poll_shutdown writer_poll_done b1)"
    using assms(2) by (auto simp: bridge_duplex_def bridge_def split: prod.splits sum.splits)
  have "w_out (writer_half a') = w_out (writer_half a1)" "w_out (writer_half b') = w_out (writer_half b1)"
    unfolding st by (rule rw.shutdown_keeps)+
  with c st(1) assms(1) show "w_out (writer_half b') = w_out (writer_half b) @ r_in (reader_half a)"
    "w_out (writer_half a') = w_out (writer_half a) @ r_in (reader_half b)"
    "a_to_b st = of_nat (length (r_in (reader_half a)))" "b_to_a st = of_nat (length (r_in (reader_half b)))"
    unfolding copies_both_ways_def by (metis bridge_stats.select_convs)+
qed

text \<open>A copier that takes whole streams, for the examples.\<close>

definition whole_copy :: copier where
  "whole_copy a b =
     (let up = r_in (reader_half a); down = r_in (reader_half b) in
      (Inr (of_nat (length up), of_nat (length down)),
       \<lparr>reader_half = (reader_half a)\<lparr>r_in := []\<rparr>,
        writer_half = (writer_half a)\<lparr>w_out := w_out (writer_half a) @ down\<rparr>\<rparr>,
       \<lparr>reader_half = (reader_half b)\<lparr>r_in := []\<rparr>,
        writer_half = (writer_half b)\<lparr>w_out := w_out (writer_half b) @ up\<rparr>\<rparr>))"

lemma whole_copy_ok: "copies_both_ways whole_copy"
  by (simp add: copies_both_ways_def whole_copy_def Let_def)

end
