(* ===== verification/Expose.thy ===== *)
theory Expose
  imports Consume Tunnel
begin

text \<open>
  \<^verbatim>\<open>crates/client/src/expose.rs\<close>: registering the services of a client with the server
  (\<open>register_with_server\<close>), the answer to the server's heartbeats, and the provider's handler: the
  handshake of the theory \<open>Auth\<close>, the connection to the backend and the bridge of the theory \<open>Tunnel\<close>.
\<close>

section \<open>Registration\<close>

datatype register_failure =
    RegConnect
  | RegOpenBi
  | RegHello subscribe_error
  | RegWrite frame_error
  | RegRead "frame_error fault"
  | RegisterRejected string u16 string
  | UnexpectedAfterRegister frame

definition register_one :: "json_codec \<Rightarrow> string \<Rightarrow> reader \<times> writer \<Rightarrow> (register_failure + unit) \<times> writer" where
  "register_one js name rw =
     (case write_to js (Register \<lparr>reg_service = name\<rparr>) (snd rw) of
        (Inl e, w) \<Rightarrow> (Inl (RegWrite e), w)
      | (Inr _, w) \<Rightarrow>
          ((case fst (read_from js (fst rw)) of
              Inl e \<Rightarrow> Inl (RegRead e)
            | Inr (RegisterOk ok) \<Rightarrow> Inr ()
            | Inr (ControlError code reason) \<Rightarrow> Inl (RegisterRejected name code reason)
            | Inr other \<Rightarrow> Inl (UnexpectedAfterRegister other)), w))"

text \<open>The two loops, over the exposed services and then the static ones, on a fresh stream each.\<close>

fun register_all :: "json_codec \<Rightarrow> string list \<Rightarrow> (reader \<times> writer) list \<Rightarrow> (register_failure + unit) \<times> writer list" where
  "register_all js [] streams = (Inr (), [])"
| "register_all js (name # names) [] = (Inl RegOpenBi, [])"
| "register_all js (name # names) (rw # streams) =
     (case register_one js name rw of
        (Inl e, w) \<Rightarrow> (Inl e, [w])
      | (Inr _, w) \<Rightarrow> (case register_all js names streams of (r, ws) \<Rightarrow> (r, w # ws)))"

definition register_with_server ::
  "json_codec \<Rightarrow> string \<Rightarrow> string \<Rightarrow> string list \<Rightarrow> string list \<Rightarrow> dialled \<Rightarrow> (register_failure + unit) \<times> writer list" where
  "register_with_server js token info services static_names conn =
     (case conn of
        None \<Rightarrow> (Inl RegConnect, [])
      | Some [] \<Rightarrow> (Inl RegOpenBi, [])
      | Some (rw # streams) \<Rightarrow>
          (case client_hello js token info rw of
             (Inl e, w) \<Rightarrow> (Inl (RegHello e), [w])
           | (Inr _, w) \<Rightarrow>
               (case register_all js (services @ static_names) streams of (r, ws) \<Rightarrow> (r, w # ws))))"

section \<open>Heartbeats\<close>

text \<open>
  \<open>ControlResponseHandler\<close>: every stream of the server is answered with a heartbeat when it holds
  one; the loop ends at the first stream that cannot be read, or when no stream comes any more.
\<close>

fun respond_heartbeats :: "json_codec \<Rightarrow> (reader \<times> writer) list \<Rightarrow> writer list" where
  "respond_heartbeats js [] = []"
| "respond_heartbeats js ((r, w) # streams) =
     (case fst (read_from js r) of
        Inl e \<Rightarrow> [w]
      | Inr Heartbeat \<Rightarrow> snd (write_to js Heartbeat w) # respond_heartbeats js streams
      | Inr other \<Rightarrow> w # respond_heartbeats js streams)"

section \<open>Serving a stream\<close>

text \<open>
  Connecting the backend ends in one of three ways. The handler returns how it ended, the stream
  of the consumer and the socket of the backend as they are left.
\<close>

datatype backend = BackendTimedOut | BackendRefused io_error | BackendUp duplex

datatype serve_end =
    NotServed provider_outcome
  | BackendTimeout
  | BackendConnect io_error
  | Served bridge_stats
  | BridgeFailed io_error

definition expose_handle ::
  "json_codec \<Rightarrow> hmac \<Rightarrow> bytes \<Rightarrow> string \<Rightarrow> bytes \<Rightarrow> copier \<Rightarrow> backend \<Rightarrow> reader \<Rightarrow> writer
     \<Rightarrow> serve_end \<times> duplex \<times> duplex option" where
  "expose_handle js hm secret name n copy be r w =
     (case provider_handshake js hm secret name n r w of
        (Authenticated, r', w') \<Rightarrow>
          (case be of
             BackendTimedOut \<Rightarrow> (BackendTimeout, bistream_new r' w', None)
           | BackendRefused e \<Rightarrow> (BackendConnect e, bistream_new r' w', None)
           | BackendUp b \<Rightarrow>
               (case bridge_duplex copy b (bistream_new r' w') of
                  (Inr st, b', s') \<Rightarrow> (Served st, s', Some b')
                | (Inl e, b', s') \<Rightarrow> (BridgeFailed e, s', Some b')))
      | (out, r', w') \<Rightarrow> (NotServed out, bistream_new r' w', None))"

text \<open>
  What the protocol handler reports: a peer that sends a wrong frame or a wrong proof ends the
  session without an error; a frame on which the decoder panics unwinds the handler, which then
  reports nothing (\<open>Panic\<close>); everything else that went wrong is an error.
\<close>

datatype accept_error = NoFirstStream | SessionFailed serve_end

fun serve_result :: "serve_end \<Rightarrow> accept_error fault + unit" where
  "serve_result (Served st) = Inr ()"
| "serve_result (NotServed (UnexpectedFrame f)) = Inr ()"
| "serve_result (NotServed BadProof) = Inr ()"
| "serve_result (NotServed (HandshakeError Panic)) = Inl Panic"
| "serve_result out = Inl (Error (SessionFailed out))"

definition expose_accept ::
  "json_codec \<Rightarrow> hmac \<Rightarrow> bytes \<Rightarrow> string \<Rightarrow> bytes \<Rightarrow> copier \<Rightarrow> backend \<Rightarrow> (reader \<times> writer) option \<Rightarrow> accept_error fault + unit" where
  "expose_accept js hm secret name n copy be first =
     (case first of
        None \<Rightarrow> Inl (Error NoFirstStream)
      | Some (r, w) \<Rightarrow> serve_result (fst (expose_handle js hm secret name n copy be r w)))"

section \<open>Facts\<close>

lemma expose_serves_only_authenticated:
  assumes "expose_handle js hm secret name n copy be r w = (out, s, b)" and "\<And>x. out \<noteq> NotServed x"
  shows "\<exists>r' w'. provider_handshake js hm secret name n r w = (Authenticated, r', w')"
  using assms by (auto simp: expose_handle_def split: prod.splits provider_outcome.splits)

lemma expose_served_cases:
  assumes "expose_handle js hm secret name n copy be r w = (Served st, s, b')"
  obtains r' w' b b1 where "provider_handshake js hm secret name n r w = (Authenticated, r', w')"
    and "be = BackendUp b" and "b' = Some b1" and "bridge_duplex copy b (bistream_new r' w') = (Inr st, b1, s)"
  using assms
  by (auto simp: expose_handle_def split: prod.splits provider_outcome.splits backend.splits sum.splits)

text \<open>The handler as the peer sees it, and that it never connected the backend.\<close>

interpretation exposed: guarded_handler js hm secret name n
  "\<lambda>r w. case expose_handle js hm secret name n copy be r w of (out, s, b) \<Rightarrow> ((out, b), writer_half s)"
  "\<lambda>(out, b). (\<exists>x. out = NotServed x) \<and> b = None" for js hm secret name n copy be
proof unfold_locales
  fix r w out r' w'
  assume "provider_handshake js hm secret name n r w = (out, r', w')" and "out \<noteq> Authenticated"
  then show "(case fst (case expose_handle js hm secret name n copy be r w of (out, s, b) \<Rightarrow> ((out, b), writer_half s)) of
      (out, b) \<Rightarrow> (\<exists>x. out = NotServed x) \<and> b = None) \<and>
    snd (case expose_handle js hm secret name n copy be r w of (out, s, b) \<Rightarrow> ((out, b), writer_half s)) = w'"
    by (cases out) (simp_all add: expose_handle_def bistream_new_def)
qed

lemma register_all_ok_length:
  "fst (register_all js names streams) = Inr u \<Longrightarrow> length names \<le> length streams"
  by (induction js names streams rule: register_all.induct) (auto split: prod.splits sum.splits)

lemma register_one_answered:
  assumes "json_codec_ok js" and "sendable js (register_frame name)" and "sendable js (registered_frame name)"
  shows "register_one js name (client_end (sent js (registered_frame name))) =
    (Inr (), sent js (register_frame name))"
  using assms by (simp add: register_one_def client_end_def wire_simps)

definition registrable :: "json_codec \<Rightarrow> string \<Rightarrow> bool" where
  "registrable js name \<longleftrightarrow> length name \<le> 32 \<and> sendable js (register_frame name) \<and> sendable js (registered_frame name)"

lemma register_all_answered:
  assumes "json_codec_ok js" and "list_all (registrable js) names"
  shows "register_all js names (map (\<lambda>n. client_end (sent js (registered_frame n))) names) =
    (Inr (), map (\<lambda>n. sent js (register_frame n)) names)"
  using assms(2)
  by (induction names) (simp_all add: registrable_def register_one_answered [OF assms(1)])

end
