(* ===== verification/Registry.thy ===== *)
theory Registry
  imports Hashmap Config
begin

text \<open>
  \<^verbatim>\<open>crates/server/src/registry.rs\<close>: the server's groups with their sessions and services, the
  table of active relay streams, and the operations on them.

  An \<open>Arc<Group>\<close> that a handler holds is the group itself, shared with the map: the set of
  groups never changes after \<open>ServerState::new\<close>, so a handler's group is named by its key, and
  an operation on it is \<open>with_group key\<close>. An \<open>Arc<AtomicU64>\<close> is an index into \<open>atomics\<close>, the
  store of all such cells, because the relay task and the table \<open>relay_rates\<close> share one cell.
  Ids of endpoints are the type variable \<open>'id\<close>; an \<open>Instant\<close> is an integer. No code path takes
  the write lock of the group map, so it is never poisoned and every \<open>read\<close> of it succeeds.
\<close>

section \<open>State\<close>

record session =
  last_heartbeat :: int

record 'id service_record =
  provider_id :: 'id

record 'id group =
  g_name :: string
  g_token :: string
  sessions :: "('id, session) hmap"
  services :: "(string, 'id service_record) hmap"

record 'id server_state =
  groups :: "(string, 'id group) hmap"
  next_stream_id :: u64
  relay_rates :: "(u64, nat) hmap"
  relay_rate_overrides :: "('id, u64) hmap"
  atomics :: "u64 list"

datatype register_error = BadName

section \<open>Operations of the server state\<close>

definition new_group :: "group_config \<Rightarrow> 'id group" where
  "new_group g = \<lparr>g_name = gc_name g, g_token = gc_group_token g, sessions = hm_empty, services = hm_empty\<rparr>"

text \<open>\<open>None\<close> is the failed assertion that there is a group.\<close>

definition new_server_state :: "group_config list \<Rightarrow> ('id \<times> u64) list \<Rightarrow> 'id server_state option" where
  "new_server_state gs overrides =
     (let m = fold (\<lambda>(k, v). hm_insert k v) (map (\<lambda>g. (gc_name g, new_group g)) gs) hm_empty in
      if m = hm_empty then None
      else Some \<lparr>groups = m, next_stream_id = 1, relay_rates = hm_empty,
        relay_rate_overrides = fold (\<lambda>(k, v). hm_insert k v) overrides hm_empty,
        atomics = []\<rparr>)"

definition group_of :: "'id server_state \<Rightarrow> string \<Rightarrow> 'id group option" where
  "group_of st name = hm_get (groups st) name"

definition authenticate :: "'id server_state \<Rightarrow> string \<Rightarrow> 'id group option" where
  "authenticate st token = List.find (\<lambda>g. g_token g = token) (map snd (groups st))"

definition group_lookup :: "'id group \<Rightarrow> string \<Rightarrow> 'id option" where
  "group_lookup g service = map_option provider_id (hm_get (services g) service)"

definition lookup_service :: "'id server_state \<Rightarrow> string \<Rightarrow> string \<Rightarrow> 'id option" where
  "lookup_service st group_name service =
     (case group_of st group_name of None \<Rightarrow> None | Some g \<Rightarrow> group_lookup g service)"

definition dump_services :: "'id server_state \<Rightarrow> (string \<times> string \<times> 'id) list" where
  "dump_services st =
     concat (map (\<lambda>(gname, g). map (\<lambda>(s, r). (gname, s, provider_id r)) (services g)) (groups st))"

definition session_count :: "'id server_state \<Rightarrow> nat" where
  "session_count st = sum_list (map (\<lambda>(_, g). length (sessions g)) (groups st))"

definition lookup_relay_rate_override :: "'id server_state \<Rightarrow> 'id \<Rightarrow> u64 option" where
  "lookup_relay_rate_override st consumer = hm_get (relay_rate_overrides st) consumer"

definition relay_rate_overrides_snapshot :: "'id server_state \<Rightarrow> ('id \<times> u64) list" where
  "relay_rate_overrides_snapshot st = relay_rate_overrides st"

text \<open>\<open>fetch_add\<close> wraps around.\<close>

definition alloc_stream_id :: "'id server_state \<Rightarrow> u64 \<times> 'id server_state" where
  "alloc_stream_id st = (next_stream_id st, st\<lparr>next_stream_id := next_stream_id st + 1\<rparr>)"

definition atomic_new :: "u64 \<Rightarrow> 'id server_state \<Rightarrow> nat \<times> 'id server_state" where
  "atomic_new v st = (length (atomics st), st\<lparr>atomics := atomics st @ [v]\<rparr>)"

definition atomic_load :: "'id server_state \<Rightarrow> nat \<Rightarrow> u64" where
  "atomic_load st h = atomics st ! h"

definition register_relay_rate :: "u64 \<Rightarrow> nat \<Rightarrow> 'id server_state \<Rightarrow> 'id server_state" where
  "register_relay_rate stream_id handle st =
     st\<lparr>relay_rates := hm_insert stream_id handle (relay_rates st)\<rparr>"

definition unregister_relay_rate :: "u64 \<Rightarrow> 'id server_state \<Rightarrow> 'id server_state" where
  "unregister_relay_rate stream_id st = st\<lparr>relay_rates := hm_remove stream_id (relay_rates st)\<rparr>"

definition update_relay_rate :: "u64 \<Rightarrow> u64 \<Rightarrow> 'id server_state \<Rightarrow> bool \<times> 'id server_state" where
  "update_relay_rate stream_id bytes_per_sec st =
     (case hm_get (relay_rates st) stream_id of
        Some h \<Rightarrow> (True, st\<lparr>atomics := (atomics st)[h := bytes_per_sec]\<rparr>)
      | None \<Rightarrow> (False, st))"

definition relay_rates_snapshot :: "'id server_state \<Rightarrow> (u64 \<times> u64) list" where
  "relay_rates_snapshot st = map (\<lambda>(k, h). (k, atomic_load st h)) (relay_rates st)"

section \<open>Operations of a group\<close>

definition register_service ::
  "string \<Rightarrow> 'id \<Rightarrow> 'id group \<Rightarrow> (register_error + 'id option) \<times> 'id group" where
  "register_service service provider g =
     (if length service > 32 then (Inl BadName, g)
      else
        (Inr (map_option provider_id (hm_get (services g) service)),
         g\<lparr>services := hm_insert service \<lparr>provider_id = provider\<rparr> (services g)\<rparr>))"

text \<open>The clock is read once if the session is new, and once more to stamp it.\<close>

definition touch_session :: "int \<Rightarrow> int \<Rightarrow> 'id \<Rightarrow> 'id group \<Rightarrow> 'id group" where
  "touch_session now0 now client_id g =
     (let entry = (case hm_get (sessions g) client_id of
                     None \<Rightarrow> \<lparr>last_heartbeat = now0\<rparr> | Some s \<Rightarrow> s)
      in g\<lparr>sessions := hm_insert client_id (entry\<lparr>last_heartbeat := now\<rparr>) (sessions g)\<rparr>)"

definition drop_session :: "'id \<Rightarrow> 'id group \<Rightarrow> 'id group" where
  "drop_session client_id g =
     (let g1 = g\<lparr>sessions := hm_remove client_id (sessions g)\<rparr>;
          to_remove = map fst (filter (\<lambda>e. provider_id (snd e) = client_id) (services g1))
      in g1\<lparr>services := fold hm_remove to_remove (services g1)\<rparr>)"

text \<open>An operation on the group a handler holds.\<close>

definition with_group :: "string \<Rightarrow> ('id group \<Rightarrow> 'id group) \<Rightarrow> 'id server_state \<Rightarrow> 'id server_state" where
  "with_group name f st =
     (case hm_get (groups st) name of
        None \<Rightarrow> st | Some g \<Rightarrow> st\<lparr>groups := hm_insert name (f g) (groups st)\<rparr>)"

section \<open>Well-formedness\<close>

definition group_wf :: "'id group \<Rightarrow> bool" where
  "group_wf g \<longleftrightarrow> hm_wf (sessions g) \<and> hm_wf (services g) \<and> (\<forall>s\<in>set (hm_keys (services g)). length s \<le> 32)"

definition registry_wf :: "'id server_state \<Rightarrow> bool" where
  "registry_wf st \<longleftrightarrow>
     groups st \<noteq> [] \<and> hm_wf (groups st) \<and>
     (\<forall>(k, g)\<in>set (groups st). g_name g = k \<and> group_wf g) \<and>
     hm_wf (relay_rates st) \<and> (\<forall>(i, h)\<in>set (relay_rates st). h < length (atomics st)) \<and>
     distinct (map snd (relay_rates st)) \<and> hm_wf (relay_rate_overrides st)"

section \<open>The contract of a service directory\<close>

text \<open>
  What a group promises to the handlers: who provides a service and who has a session, after
  any sequence of registrations, heartbeats and dropped sessions. The laws are about single
  operations; the lemmas describe whole histories, oldest operation first.
\<close>

datatype ('s, 'p) dir_op = Registered 's 'p | Touched int int 'p | Dropped 'p

fun dir_exec :: "('s \<Rightarrow> 'p \<Rightarrow> 'd \<Rightarrow> 'd) \<Rightarrow> (int \<Rightarrow> int \<Rightarrow> 'p \<Rightarrow> 'd \<Rightarrow> 'd) \<Rightarrow> ('p \<Rightarrow> 'd \<Rightarrow> 'd)
    \<Rightarrow> ('s, 'p) dir_op \<Rightarrow> 'd \<Rightarrow> 'd" where
  "dir_exec reg tch drp (Registered s p) d = reg s p d"
| "dir_exec reg tch drp (Touched a b p) d = tch a b p d"
| "dir_exec reg tch drp (Dropped p) d = drp p d"

locale service_directory =
  fixes lookup :: "'d \<Rightarrow> 's \<Rightarrow> 'p option"
    and has_session :: "'d \<Rightarrow> 'p \<Rightarrow> bool"
    and acceptable :: "'s \<Rightarrow> bool"
    and register :: "'s \<Rightarrow> 'p \<Rightarrow> 'd \<Rightarrow> 'd"
    and touch :: "int \<Rightarrow> int \<Rightarrow> 'p \<Rightarrow> 'd \<Rightarrow> 'd"
    and drop :: "'p \<Rightarrow> 'd \<Rightarrow> 'd"
    and ok :: "'d \<Rightarrow> bool"
  assumes lookup_register:
      "ok d \<Longrightarrow> lookup (register s p d) s' = (if s' = s \<and> acceptable s then Some p else lookup d s')"
    and lookup_touch: "ok d \<Longrightarrow> lookup (touch a b p d) s = lookup d s"
    and lookup_drop: "ok d \<Longrightarrow> lookup (drop p d) s = (if lookup d s = Some p then None else lookup d s)"
    and session_register: "ok d \<Longrightarrow> has_session (register s p d) q = has_session d q"
    and session_touch: "ok d \<Longrightarrow> has_session (touch a b p d) q \<longleftrightarrow> q = p \<or> has_session d q"
    and session_drop: "ok d \<Longrightarrow> has_session (drop p d) q \<longleftrightarrow> q \<noteq> p \<and> has_session d q"
    and ok_register: "ok d \<Longrightarrow> ok (register s p d)"
    and ok_touch: "ok d \<Longrightarrow> ok (touch a b p d)"
    and ok_drop: "ok d \<Longrightarrow> ok (drop p d)"
begin

abbreviation exec :: "('s, 'p) dir_op \<Rightarrow> 'd \<Rightarrow> 'd" where
  "exec \<equiv> dir_exec register touch drop"

lemma lookup_drop_Some:
  "ok d \<Longrightarrow> lookup (drop p d) s = Some q \<longleftrightarrow> q \<noteq> p \<and> lookup d s = Some q"
  by (auto simp: lookup_drop)

lemma ok_exec: "ok d \<Longrightarrow> ok (exec op d)"
  by (cases op) (simp_all add: ok_register ok_touch ok_drop)

lemma ok_run: "ok d \<Longrightarrow> ok (fold exec ops d)"
  by (induction ops arbitrary: d) (simp_all add: ok_exec)

text \<open>
  A service is provided by \<open>p\<close> exactly when the last registration of its name came from \<open>p\<close>
  and \<open>p\<close>'s session was not dropped since.
\<close>

lemma lookup_run:
  assumes "ok d" and "lookup d s = None"
  shows "lookup (fold exec ops d) s = Some p \<longleftrightarrow>
    acceptable s \<and> since (\<lambda>x. x = Registered s p) (\<lambda>x. x \<noteq> Dropped p \<and> (\<forall>q. x \<noteq> Registered s q)) ops"
proof (induction ops rule: rev_induct)
  case Nil
  then show ?case using assms by simp
next
  case (snoc op ops)
  have ok: "ok (fold exec ops d)" by (rule ok_run) (rule assms(1))
  show ?case
    by (cases op) (auto simp: lookup_register [OF ok] lookup_touch [OF ok]
        lookup_drop_Some [OF ok] snoc.IH)
qed

text \<open>A client has a session exactly when it was heard of after its session was last dropped.\<close>

lemma session_run:
  assumes "ok d" and "\<not> has_session d p"
  shows "has_session (fold exec ops d) p \<longleftrightarrow>
    since (\<lambda>x. \<exists>a b. x = Touched a b p) (\<lambda>x. x \<noteq> Dropped p) ops"
proof (induction ops rule: rev_induct)
  case Nil
  then show ?case using assms by simp
next
  case (snoc op ops)
  have ok: "ok (fold exec ops d)" by (rule ok_run) (rule assms(1))
  show ?case
    by (cases op) (auto simp: session_register [OF ok] session_touch [OF ok]
        session_drop [OF ok] snoc.IH)
qed

end

section \<open>A group meets the contract\<close>

definition group_exec :: "(string, 'id) dir_op \<Rightarrow> 'id group \<Rightarrow> 'id group" where
  "group_exec = dir_exec (\<lambda>s p g. snd (register_service s p g)) touch_session drop_session"

definition has_session :: "'id group \<Rightarrow> 'id \<Rightarrow> bool" where
  "has_session g c \<longleftrightarrow> hm_get (sessions g) c \<noteq> None"

lemma group_wf_new: "group_wf (new_group gc)"
  by (simp add: group_wf_def new_group_def hm_empty_def)

lemma group_wf_register [inv_intros]: "group_wf g \<Longrightarrow> group_wf (snd (register_service s p g))"
  by (auto simp: group_wf_def register_service_def hm_wf_insert hm_keys_insert split: if_splits)

lemma group_wf_touch [inv_intros]: "group_wf g \<Longrightarrow> group_wf (touch_session a b c g)"
  by (simp add: group_wf_def touch_session_def Let_def hm_wf_insert)

lemma hm_keys_remove_all: "set (hm_keys (fold hm_remove ks m)) \<subseteq> set (hm_keys m)"
  by (induction ks arbitrary: m) (fastforce simp: hm_keys_remove)+

lemma group_wf_drop [inv_intros]: "group_wf g \<Longrightarrow> group_wf (drop_session c g)"
  using hm_keys_remove_all
  by (fastforce simp: group_wf_def drop_session_def Let_def hm_wf_remove intro: hm.wf_remove_all)

lemma group_lookup_register:
  "group_lookup (snd (register_service s p g)) s' =
     (if s' = s \<and> length s \<le> 32 then Some p else group_lookup g s')"
  by (simp add: register_service_def group_lookup_def hm_get_insert)

lemma group_lookup_touch [simp]: "group_lookup (touch_session a b c g) s = group_lookup g s"
  by (simp add: touch_session_def group_lookup_def Let_def)

lemma services_drop_session:
  assumes "hm_wf (services g)"
  shows "hm_get (services (drop_session c g)) s =
    (case hm_get (services g) s of
       Some r \<Rightarrow> if provider_id r = c then None else Some r | None \<Rightarrow> None)"
  using hm.get_remove_where [OF assms, of "\<lambda>e. provider_id (snd e) = c" s]
  by (simp add: drop_session_def Let_def split: option.splits)

lemma group_lookup_drop:
  assumes "group_wf g"
  shows "group_lookup (drop_session c g) s =
    (if group_lookup g s = Some c then None else group_lookup g s)"
proof -
  have "hm_wf (services g)" using assms by (simp add: group_wf_def)
  from services_drop_session [OF this] show ?thesis
    by (auto simp: group_lookup_def split: option.splits)
qed

lemma has_session_simps:
  "has_session (snd (register_service s p g)) q = has_session g q"
  "has_session (touch_session a b c g) q \<longleftrightarrow> q = c \<or> has_session g q"
  "has_session (drop_session c g) q \<longleftrightarrow> q \<noteq> c \<and> has_session g q"
  by (auto simp: has_session_def register_service_def touch_session_def drop_session_def Let_def
      hm_get_insert hm_get_remove)

interpretation dir: service_directory group_lookup has_session "\<lambda>s. length s \<le> 32"
  "\<lambda>s p g. snd (register_service s p g)" touch_session drop_session group_wf
  by unfold_locales
    (simp_all add: group_lookup_register group_lookup_drop has_session_simps inv_intros)

lemma new_group_empty: "group_lookup (new_group gc) s = None" "\<not> has_session (new_group gc) p"
  by (simp_all add: new_group_def group_lookup_def has_session_def hm_empty_def)

section \<open>Groups in the server state\<close>

lemma group_of_with_group:
  "group_of (with_group n f st) m = (if m = n then map_option f (group_of st n) else group_of st m)"
  by (auto simp: with_group_def group_of_def hm_get_insert split: option.splits)

lemma with_group_frame [simp]:
  "next_stream_id (with_group n f st) = next_stream_id st"
  "relay_rates (with_group n f st) = relay_rates st"
  "relay_rate_overrides (with_group n f st) = relay_rate_overrides st"
  "atomics (with_group n f st) = atomics st"
  by (simp_all add: with_group_def split: option.splits)

lemma lookup_service_with_group:
  "lookup_service (with_group n f st) m s =
     (if m = n then (case group_of st n of None \<Rightarrow> None | Some g \<Rightarrow> group_lookup (f g) s)
      else lookup_service st m s)"
  by (simp add: lookup_service_def group_of_with_group split: option.splits)

lemma registry_wf_group:
  "registry_wf st \<Longrightarrow> group_of st n = Some g \<Longrightarrow> g_name g = n \<and> group_wf g"
  by (auto simp: registry_wf_def group_of_def hm_entries_iff [symmetric] dest: bspec)

lemma group_ops_name [simp]:
  "g_name (snd (register_service s p g)) = g_name g" "g_token (snd (register_service s p g)) = g_token g"
  "g_name (touch_session a b c g) = g_name g" "g_token (touch_session a b c g) = g_token g"
  "g_name (drop_session c g) = g_name g" "g_token (drop_session c g) = g_token g"
  by (simp_all add: register_service_def touch_session_def drop_session_def Let_def)

section \<open>The invariant\<close>

lemma registry_wf_with_group [inv_intros]:
  assumes "registry_wf st" and "\<And>g. group_wf g \<Longrightarrow> group_wf (f g)" and "\<And>g. g_name (f g) = g_name g"
  shows "registry_wf (with_group n f st)"
proof (cases "hm_get (groups st) n")
  case None
  then show ?thesis using assms(1) by (simp add: with_group_def)
next
  case (Some g)
  have g: "g_name g = n" "group_wf g"
    using registry_wf_group [OF assms(1)] Some by (auto simp: group_of_def)
  have "g_name x = k \<and> group_wf x" if "(k, x) \<in> set (hm_insert n (f g) (groups st))" for k x
    using hm_insert_entryD [OF that] g assms by (auto simp: registry_wf_def)
  then show ?thesis
    using assms(1) Some by (auto simp: registry_wf_def with_group_def hm_wf_insert)
qed

lemma registry_wf_alloc [inv_intros]: "registry_wf st \<Longrightarrow> registry_wf (snd (alloc_stream_id st))"
  by (simp add: registry_wf_def alloc_stream_id_def)

lemma registry_wf_unregister [inv_intros]: "registry_wf st \<Longrightarrow> registry_wf (unregister_relay_rate i st)"
  by (auto simp: registry_wf_def unregister_relay_rate_def hm_wf_remove
      distinct_snd_hm_remove dest!: hm_remove_entryD)

lemma registry_wf_update [inv_intros]: "registry_wf st \<Longrightarrow> registry_wf (snd (update_relay_rate i b st))"
  by (auto simp: registry_wf_def update_relay_rate_def split: option.splits)

text \<open>A new cell, registered under a stream id.\<close>

lemma registry_wf_register_rate [inv_intros]:
  assumes "registry_wf st"
  shows "registry_wf (register_relay_rate i (fst (atomic_new v st)) (snd (atomic_new v st)))"
proof -
  have "h < length (atomics st)" if "(j, h) \<in> set (relay_rates st)" for j h
    using assms that by (auto simp: registry_wf_def)
  moreover from this have "length (atomics st) \<notin> snd ` set (relay_rates st)"
    by fastforce
  ultimately show ?thesis
    using assms
    by (fastforce dest: hm_insert_entryD simp: registry_wf_def register_relay_rate_def atomic_new_def hm_wf_insert
        distinct_snd_hm_insert)
qed

lemma g_name_new [simp]: "g_name (new_group g) = gc_name g" "g_token (new_group g) = gc_group_token g"
  by (simp_all add: new_group_def)

lemma groups_of_new:
  "fold (\<lambda>(k, v). hm_insert k v) (map (\<lambda>g. (gc_name g, new_group g)) gs) m \<noteq> [] \<longleftrightarrow> gs \<noteq> [] \<or> m \<noteq> []"
proof (induction gs arbitrary: m)
  case Nil
  then show ?case by simp
next
  case (Cons g gs)
  then show ?case by simp
qed

lemma groups_of_new_wf:
  assumes "\<forall>(k, g)\<in>set m. g_name g = k \<and> group_wf g"
  shows "\<forall>(k, g)\<in>set (fold (\<lambda>(k, v). hm_insert k v) (map (\<lambda>g. (gc_name g, new_group g)) gs) m).
    g_name g = k \<and> group_wf g"
  using assms
proof (induction gs arbitrary: m)
  case Nil
  then show ?case by simp
next
  case (Cons g gs)
  have "\<forall>(k, x)\<in>set (hm_insert (gc_name g) (new_group g) m). g_name x = k \<and> group_wf x"
    using Cons.prems by (auto simp: group_wf_new dest!: hm_insert_entryD)
  from Cons.IH [OF this] show ?case by simp
qed

lemma registry_wf_new:
  assumes "new_server_state gs overrides = Some st"
  shows "registry_wf st"
proof -
  have ne: "gs \<noteq> []"
    using assms by (cases gs) (auto simp: new_server_state_def Let_def)
  have "hm_wf (groups st)" "hm_wf (relay_rate_overrides st)"
    using assms hm.wf_insert_all [OF hm.wf_empty]
    by (auto simp: new_server_state_def Let_def split: if_splits)
  then show ?thesis
    using assms ne groups_of_new_wf [of "[]" gs] groups_of_new [of gs "[]"]
    by (auto simp: registry_wf_def new_server_state_def Let_def hm_empty_def split: if_splits)
qed

lemma group_of_new:
  fixes st :: "'id server_state"
  assumes "new_server_state gs overrides = Some st" and "distinct (map gc_name gs)"
  shows "group_of st n = Some g \<longleftrightarrow> (\<exists>gc\<in>set gs. gc_name gc = n \<and> g = new_group gc)"
proof -
  let ?kvs = "map (\<lambda>g. (gc_name g, new_group g :: 'id group)) gs"
  have d: "distinct (map fst ?kvs)"
    using assms(2) by (simp add: comp_def)
  have "group_of st n = hm_get (fold (\<lambda>(k, v). hm_insert k v) ?kvs hm_empty) n"
    using assms(1) by (auto simp: group_of_def new_server_state_def Let_def split: if_splits)
  also have "\<dots> = map_of ?kvs n"
    using hm.get_insert_all_distinct [OF hm.wf_empty d, of n]
    by (simp add: hm.get_empty split: option.splits)
  finally have "group_of st n = Some g \<longleftrightarrow> (n, g) \<in> set ?kvs"
    using d by (simp add: map_of_eq_Some_iff)
  then show ?thesis by auto
qed

section \<open>Runs of the registry\<close>

text \<open>
  The ways in which the handlers change the state: an operation on a group, the start of a
  relay stream with and without a rate cell, its end, and a change of its rate.
\<close>

inductive registry_step :: "'id server_state \<Rightarrow> 'id server_state \<Rightarrow> bool" where
  on_group: "registry_step st (with_group n (group_exec op) st)"
| alloc: "registry_step st (snd (alloc_stream_id st))"
| open_rate: "atomic_new v st = (h, st') \<Longrightarrow> registry_step st (register_relay_rate i h st')"
| close_rate: "registry_step st (unregister_relay_rate i st)"
| set_rate: "registry_step st (snd (update_relay_rate i b st))"

inductive_cases registry_stepE: "registry_step st st'"

lemma group_exec_keeps: "group_wf g \<Longrightarrow> group_wf (group_exec op g)" "g_name (group_exec op g) = g_name g"
    "g_token (group_exec op g) = g_token g"
  by (cases op; simp add: group_exec_def inv_intros)+

lemma registry_step_wf: "registry_step st st' \<Longrightarrow> registry_wf st \<Longrightarrow> registry_wf st'"
proof (induction rule: registry_step.induct)
  case (on_group st n op)
  then show ?case by (intro inv_intros) (auto simp: group_exec_keeps)
next
  case (open_rate v st h st' i)
  then show ?case using registry_wf_register_rate [of st i v] by simp
qed (auto intro: inv_intros)

lemma registry_run_wf: "registry_step\<^sup>*\<^sup>* st st' \<Longrightarrow> registry_wf st \<Longrightarrow> registry_wf st'"
  by (induction rule: rtranclp_induct) (auto intro: registry_step_wf)

lemma registry_step_groups:
  "registry_step st st' \<Longrightarrow> map_option (\<lambda>g. (g_name g, g_token g)) (group_of st' n) =
     map_option (\<lambda>g. (g_name g, g_token g)) (group_of st n)"
proof (induction rule: registry_step.induct)
  case (on_group st m op)
  then show ?case
    by (simp add: group_of_with_group option.map_comp comp_def group_exec_keeps)
qed (auto simp: alloc_stream_id_def register_relay_rate_def atomic_new_def
    unregister_relay_rate_def update_relay_rate_def group_of_def split: option.splits)

lemma authenticate_SomeD:
  assumes "registry_wf st" and "authenticate st token = Some g"
  shows "g_token g = token \<and> group_of st (g_name g) = Some g"
proof -
  from assms(2) obtain k where k: "(k, g) \<in> set (groups st)" and tok: "g_token g = token"
    by (auto simp: authenticate_def find_Some_iff in_set_conv_nth) (metis nth_mem prod.collapse)
  have "g_name g = k" "hm_wf (groups st)"
    using assms(1) k by (auto simp: registry_wf_def)
  with k tok show ?thesis
    by (simp add: group_of_def hm_entries_iff)
qed

lemma authenticate_None_iff:
  assumes "registry_wf st"
  shows "authenticate st token = None \<longleftrightarrow> (\<forall>n g. group_of st n = Some g \<longrightarrow> g_token g \<noteq> token)"
proof -
  have "hm_wf (groups st)"
    using assms by (simp add: registry_wf_def)
  then show ?thesis
    by (fastforce simp: authenticate_def find_None_iff group_of_def hm_entries_iff [symmetric])
qed

section \<open>Stream ids\<close>

fun alloc_ids :: "nat \<Rightarrow> 'id server_state \<Rightarrow> u64 list" where
  "alloc_ids 0 st = []"
| "alloc_ids (Suc n) st = (case alloc_stream_id st of (i, st') \<Rightarrow> i # alloc_ids n st')"

lemma alloc_ids_eq: "alloc_ids n st = map (\<lambda>k. next_stream_id st + of_nat k) [0..<n]"
proof (induction n arbitrary: st)
  case 0
  then show ?case by simp
next
  case (Suc n)
  have "map (\<lambda>k. a + of_nat k) [0..<Suc n] = a # map (\<lambda>k. a + 1 + of_nat k) [0..<n]" for a :: u64
    by (simp add: map_upt_Suc add.assoc del: upt_Suc)
  then show ?case
    by (simp add: alloc_stream_id_def Suc.IH del: upt_Suc)
qed

lemma distinct_word_range: "distinct (map (\<lambda>k. a + of_nat k :: u64) [0..<n]) \<longleftrightarrow> n \<le> 2 ^ 64"
proof
  assume d: "distinct (map (\<lambda>k. a + of_nat k :: u64) [0..<n])"
  have "n = card (set (map (\<lambda>k. a + of_nat k :: u64) [0..<n]))"
    using distinct_card [OF d] by simp
  also have "\<dots> \<le> card (UNIV :: u64 set)"
    by (intro card_mono) simp_all
  finally show "n \<le> 2 ^ 64"
    by (simp add: card_word)
next
  assume n: "n \<le> 2 ^ 64"
  have "inj_on (\<lambda>k. a + of_nat k :: u64) {0..<n}"
  proof (rule inj_onI)
    fix i j
    assume "i \<in> {0..<n}" "j \<in> {0..<n}" and eq: "a + of_nat i = (a + of_nat j :: u64)"
    then have "i < 2 ^ 64" "j < 2 ^ 64" using n by auto
    moreover from eq have "(of_nat i :: u64) = of_nat j" by simp
    moreover have "unat (of_nat k :: u64) = k" if "k < 2 ^ 64" for k
      using that by (simp add: unat_of_nat)
    ultimately show "i = j"
      by metis
  qed
  then show "distinct (map (\<lambda>k. a + of_nat k :: u64) [0..<n])"
    by (simp add: distinct_map)
qed

section \<open>An example state\<close>

text \<open>Two groups; client 7 provides \<open>ssh\<close> in the first, and one relay stream is active.\<close>

definition demo_groups :: "group_config list" where
  "demo_groups = [\<lparr>gc_name = ''a'', gc_group_token = ''t1''\<rparr>, \<lparr>gc_name = ''b'', gc_group_token = ''t2''\<rparr>]"

definition demo_state :: "nat server_state" where
  "demo_state = \<lparr>
     groups = [(''a'', \<lparr>g_name = ''a'', g_token = ''t1'', sessions = [(7, \<lparr>last_heartbeat = 5\<rparr>)],
                 services = [(''ssh'', \<lparr>provider_id = 7\<rparr>)]\<rparr>),
               (''b'', \<lparr>g_name = ''b'', g_token = ''t2'', sessions = [], services = []\<rparr>)],
     next_stream_id = 2, relay_rates = [(1, 0)], relay_rate_overrides = [(9, 50)], atomics = [100]\<rparr>"

lemma demo_state_wf: "registry_wf demo_state"
  by (simp add: registry_wf_def demo_state_def hm_wf_def group_wf_def)

lemma demo_state_group_a:
  "group_of demo_state ''a'' = Some \<lparr>g_name = ''a'', g_token = ''t1'',
     sessions = [(7, \<lparr>last_heartbeat = 5\<rparr>)], services = [(''ssh'', \<lparr>provider_id = 7\<rparr>)]\<rparr>"
  by (simp add: group_of_def demo_state_def)

section \<open>Properties\<close>

text \<open>
  C10. The registry answers for the whole history of a group: a service resolves to \<open>p\<close> exactly
  when its name has at most 32 bytes, the last registration of that name came from \<open>p\<close>, and
  \<open>p\<close>'s session was not dropped after it; a client has a session exactly when it was heard of
  after its session was last dropped.
\<close>

theorem group_answers_for_history:
  "(group_lookup (fold group_exec ops (new_group gc)) s = Some p \<longleftrightarrow>
      length s \<le> 32 \<and>
      since (\<lambda>x. x = Registered s p) (\<lambda>x. x \<noteq> Dropped p \<and> (\<nexists>q. x = Registered s q)) ops) \<and>
   (has_session (fold group_exec ops (new_group gc)) p \<longleftrightarrow>
      since (\<lambda>x. \<exists>a b. x = Touched a b p) (\<lambda>x. x \<noteq> Dropped p) ops)"
  unfolding group_exec_def
  by (simp add: dir.lookup_run [OF group_wf_new new_group_empty(1)]
      dir.session_run [OF group_wf_new new_group_empty(2)])

text \<open>
  C11. Every state the server can reach from \<open>ServerState::new\<close> is well-formed (keys are unique,
  a group's name is its key, service names have at most 32 bytes, every relay stream has a rate
  cell of its own), and its groups are the configured ones with their tokens.
\<close>

theorem reachable_registry_wf:
  assumes "new_server_state gs overrides = Some st" and "registry_step\<^sup>*\<^sup>* st st'"
  shows "registry_wf st' \<and>
    (\<forall>n. map_option (\<lambda>g. (g_name g, g_token g)) (group_of st' n) =
         map_option (\<lambda>g. (g_name g, g_token g)) (group_of st n))"
proof -
  have "map_option (\<lambda>g. (g_name g, g_token g)) (group_of st' n) =
      map_option (\<lambda>g. (g_name g, g_token g)) (group_of st n)" for n
    using assms(2) by (induction rule: rtranclp_induct) (simp_all add: registry_step_groups)
  with registry_run_wf [OF assms(2) registry_wf_new [OF assms(1)]] show ?thesis
    by blast
qed

theorem reachable_registry_wf_witness:
  "\<exists>st st' :: nat server_state. new_server_state demo_groups [(9, 50)] = Some st \<and>
     registry_step\<^sup>*\<^sup>* st st' \<and> registry_wf st' \<and> lookup_service st' ''a'' ''ssh'' = Some 7"
proof -
  obtain st :: "nat server_state" where st: "new_server_state demo_groups [(9, 50)] = Some st"
    "lookup_service (with_group ''a'' (group_exec (Registered ''ssh'' 7)) st) ''a'' ''ssh'' = Some 7"
    by (simp add: new_server_state_def demo_groups_def hm_empty_def new_group_def with_group_def
        group_exec_def register_service_def lookup_service_def group_of_def group_lookup_def)
  have "registry_step\<^sup>*\<^sup>* st (with_group ''a'' (group_exec (Registered ''ssh'' 7)) st)"
    by (blast intro: registry_step.on_group)
  with reachable_registry_wf [OF st(1) this] st show ?thesis
    by blast
qed

text \<open>
  Dropping a client's session in a group removes exactly the services that the client
  provides there; every other service of that group and every other group keeps its provider,
  and only that client's session ends.
\<close>

theorem drop_session_exact:
  assumes "registry_wf st" and "group_of st n = Some g"
  shows "let st' = with_group n (drop_session c) st in
    (\<forall>m s. lookup_service st' m s =
       (if m = n \<and> lookup_service st n s = Some c then None else lookup_service st m s)) \<and>
    (\<exists>g'. group_of st' n = Some g' \<and> (\<forall>q. has_session g' q \<longleftrightarrow> q \<noteq> c \<and> has_session g q))"
proof -
  have "group_wf g"
    using registry_wf_group [OF assms] by simp
  then show ?thesis
    using assms(2)
    by (auto simp: Let_def lookup_service_with_group group_lookup_drop has_session_simps
        group_of_with_group lookup_service_def)
qed

theorem drop_session_exact_witness:
  "lookup_service demo_state ''a'' ''ssh'' = Some 7 \<and>
   lookup_service (with_group ''a'' (drop_session 7) demo_state) ''a'' ''ssh'' = None"
  using drop_session_exact [OF demo_state_wf demo_state_group_a, of 7]
  by (simp add: Let_def lookup_service_def demo_state_group_a group_lookup_def)

text \<open>
  A token authenticates to a group that has it, and to none exactly when no group has it;
  when the tokens of the groups are distinct, the group is the only one with that token.
\<close>

theorem authenticate_by_token:
  assumes "registry_wf st"
  shows "(authenticate st token = None \<longleftrightarrow> (\<nexists>n g. group_of st n = Some g \<and> g_token g = token)) \<and>
    (\<forall>g. authenticate st token = Some g \<longrightarrow> g_token g = token \<and> group_of st (g_name g) = Some g) \<and>
    (distinct (map (\<lambda>e. g_token (snd e)) (groups st)) \<longrightarrow>
      (\<forall>n g. group_of st n = Some g \<and> g_token g = token \<longrightarrow> authenticate st token = Some g))"
proof -
  have "authenticate st token = Some g"
    if d: "distinct (map (\<lambda>e. g_token (snd e)) (groups st))"
      and g: "group_of st n = Some g" "g_token g = token" for n g
  proof -
    have "authenticate st token \<noteq> None"
      using authenticate_None_iff [OF assms] g by blast
    then obtain g' where g': "authenticate st token = Some g'" by blast
    from authenticate_SomeD [OF assms g'] have "(g_name g', g') \<in> set (groups st)" "g_token g' = token"
      using hm_get_in_entries by (auto simp: group_of_def)
    moreover have "(n, g) \<in> set (groups st)"
      using g(1) hm_get_in_entries by (auto simp: group_of_def)
    ultimately have "(n, g) = (g_name g', g')"
      using d g(2) by (intro inj_onD [of "\<lambda>e. g_token (snd e)" "set (groups st)"])
        (simp_all add: distinct_map)
    with g' show ?thesis by simp
  qed
  with authenticate_None_iff [OF assms] authenticate_SomeD [OF assms] show ?thesis
    by blast
qed

theorem authenticate_by_token_witness:
  "map_option g_name (authenticate demo_state ''t1'') = Some ''a'' \<and> authenticate demo_state ''x'' = None"
proof -
  have d: "distinct (map (\<lambda>e. g_token (snd e)) (groups demo_state))"
    by (simp add: demo_state_def)
  have n: "\<nexists>n g. group_of demo_state n = Some g \<and> g_token g = ''x''"
    by (auto simp: group_of_def demo_state_def split: if_splits)
  have "\<exists>g. authenticate demo_state ''t1'' = Some g \<and> g_name g = ''a''"
    using authenticate_by_token [OF demo_state_wf, of "''t1''"] d demo_state_group_a by fastforce
  moreover have "authenticate demo_state ''x'' = None"
    using authenticate_by_token [OF demo_state_wf, of "''x''"] n by blast
  ultimately show ?thesis by auto
qed

text \<open>
  Relay stream ids are never reused within \<open>2^64\<close> allocations, and the counter does wrap
  around: \<open>n\<close> allocations give distinct ids exactly when \<open>n \<le> 2^64\<close>.
\<close>

theorem stream_ids_unique:
  "distinct (alloc_ids n st) \<longleftrightarrow> n \<le> 2 ^ 64"
  by (simp add: alloc_ids_eq distinct_word_range)

text \<open>
  \<open>update_relay_rate\<close> changes the cap of exactly the addressed stream: the cell that its
  relay task reads holds the new value, and the snapshot of all streams changes at that id only.
\<close>

theorem update_relay_rate_exact:
  assumes "registry_wf st" and "hm_get (relay_rates st) i = Some h"
    and "update_relay_rate i b st = (found, st')"
  shows "found \<and> atomic_load st' h = b \<and>
    map_of (relay_rates_snapshot st') = (map_of (relay_rates_snapshot st))(i \<mapsto> b)"
proof -
  have h: "h < length (atomics st)" and inj: "distinct (map snd (relay_rates st))"
    using assms(1) hm_get_in_entries [OF assms(2)] by (auto simp: registry_wf_def)
  have st': "found" "st' = st\<lparr>atomics := (atomics st)[h := b]\<rparr>"
    using assms(2,3) by (auto simp: update_relay_rate_def)
  have only: "h' \<noteq> h" if "hm_get (relay_rates st) j = Some h'" "j \<noteq> i" for j h'
    using that assms(2) inj
    by (auto dest!: hm_get_in_entries simp: distinct_map dest: inj_onD [of snd _ "(j, h)" "(i, h)"])
  have snap: "map_of (relay_rates_snapshot s) = map_option (atomic_load s) \<circ> hm_get (relay_rates s)" for s :: "'a server_state"
    by (simp add: relay_rates_snapshot_def map_of_map hm_get_map_of)
  have "map_of (relay_rates_snapshot st') j = ((map_of (relay_rates_snapshot st))(i \<mapsto> b)) j" for j
    using only [of j] h assms(2)
    by (cases "hm_get (relay_rates st) j") (auto simp: snap st'(2) atomic_load_def nth_list_update)
  with st' h show ?thesis
    by (auto simp: atomic_load_def)
qed

theorem update_relay_rate_exact_witness:
  "fst (update_relay_rate 1 0 demo_state) \<and>
   map_of (relay_rates_snapshot (snd (update_relay_rate 1 0 demo_state))) 1 = Some 0"
proof -
  have "hm_get (relay_rates demo_state) 1 = Some 0"
    by (simp add: demo_state_def)
  from update_relay_rate_exact [OF demo_state_wf this, of 0] show ?thesis
    by (metis fun_upd_same prod.collapse)
qed

end
