(* ===== verification/Ratelimit.thy ===== *)
theory Ratelimit
  imports Complex_Main Protocol
begin

text \<open>
  \<^verbatim>\<open>crates/server/src/ratelimit.rs\<close>: the token bucket that caps the reply direction of a relay,
  and the copy loop that it drives.

  Times and token counts are rational numbers (the code uses \<open>f64\<close> seconds and tokens; rounding
  is not modelled). The rate is a shared atomic cell that anyone may change between two loads,
  so every load is an input: an observation is the rate that a \<open>refill\<close> loads together with
  the lag of the clock, that is how much later than asked for the task wakes up. A list of
  observations that runs out before the tokens suffice means that the task is still asleep:
  \<open>acquire\<close> is then \<open>None\<close>.
\<close>

section \<open>The bucket\<close>

record bucket =
  available :: rat
  last_refill :: rat

definition rate :: "u64 \<Rightarrow> rat" where
  "rate bps = of_nat (unat bps)"

definition bucket_new :: "u64 \<Rightarrow> rat \<Rightarrow> bucket" where
  "bucket_new bps now = \<lparr>available = rate bps, last_refill = now\<rparr>"

definition refill :: "u64 \<Rightarrow> rat \<Rightarrow> bucket \<Rightarrow> bucket" where
  "refill bps now b =
     (if bps = 0 then b
      else \<lparr>available = min (available b + (now - last_refill b) * rate bps) (rate bps),
            last_refill = now\<rparr>)"

definition wait_secs :: "u64 \<Rightarrow> rat \<Rightarrow> rat" where
  "wait_secs bps deficit = max (deficit / rate bps) (1 / 1000)"

text \<open>
  The loop of \<open>acquire\<close> from time \<open>t\<close>: the wait is computed from the rate \<open>bps\<close> that was loaded
  before the loop, the tokens from the rate of each refill.
\<close>

fun acquire_loop :: "rat \<Rightarrow> u64 \<Rightarrow> (u64 \<times> rat) list \<Rightarrow> rat \<Rightarrow> bucket \<Rightarrow> (bucket \<times> rat) option" where
  "acquire_loop needed bps [] t b = None"
| "acquire_loop needed bps ((r, lag) # obs) t b =
     (let now = t + lag; b' = refill r now b in
      if needed \<le> available b' then Some (b'\<lparr>available := available b' - needed\<rparr>, now)
      else acquire_loop needed bps obs (now + wait_secs bps (needed - available b')) b')"

definition acquire :: "nat \<Rightarrow> u64 \<Rightarrow> (u64 \<times> rat) list \<Rightarrow> rat \<Rightarrow> bucket \<Rightarrow> (bucket \<times> rat) option" where
  "acquire n bps obs t b =
     (if bps = 0 \<or> n = 0 then Some (b, t) else acquire_loop (of_nat n) bps obs t b)"

section \<open>The copy loop\<close>

definition COPY_BUFFER :: nat where
  "COPY_BUFFER = 16 * 1024"

text \<open>
  One turn of the loop: what \<open>read\<close> returns (an empty read is the end of the stream), the rate
  that \<open>acquire\<close> loads first, and its observations. The end of the list is the end of the stream.
\<close>

datatype read_result = Data bytes | ReadFailed io_error

record turn =
  t_read :: read_result
  t_rate :: u64
  t_obs :: "(u64 \<times> rat) list"

datatype copy_end = Copied u64 | CopyFailed io_error | Asleep

text \<open>After the last chunk the writer is flushed, which may fail as well.\<close>

definition copy_finish :: "rat \<Rightarrow> u64 \<Rightarrow> writer \<Rightarrow> copy_end \<times> writer \<times> rat" where
  "copy_finish t acc w =
     (case flush w of
        (Inl e, w') \<Rightarrow> (CopyFailed e, w', t)
      | (Inr _, w') \<Rightarrow> (Copied acc, w', t))"

lemma copy_finish_done [simp]: "copy_finish t acc w = (Copied acc, w, t)"
  by (simp add: copy_finish_def)

fun copy_loop :: "turn list \<Rightarrow> rat \<Rightarrow> bucket \<Rightarrow> u64 \<Rightarrow> writer \<Rightarrow> copy_end \<times> writer \<times> rat" where
  "copy_loop [] t b acc w = copy_finish t acc w"
| "copy_loop (tn # turns) t b acc w =
     (case t_read tn of
        ReadFailed e \<Rightarrow> (CopyFailed e, w, t)
      | Data bs \<Rightarrow>
          if bs = [] then copy_finish t acc w
          else
            (case acquire (length bs) (t_rate tn) (t_obs tn) t b of
               None \<Rightarrow> (Asleep, w, t)
             | Some (b', t') \<Rightarrow>
                 (case write_all bs w of
                    (Inl e, w') \<Rightarrow> (CopyFailed e, w', t')
                  | (Inr _, w') \<Rightarrow> copy_loop turns t' b' (acc + of_nat (length bs)) w')))"

definition copy_throttled :: "u64 \<Rightarrow> turn list \<Rightarrow> rat \<Rightarrow> writer \<Rightarrow> copy_end \<times> writer \<times> rat" where
  "copy_throttled bps turns now w = copy_loop turns now (bucket_new bps now) 0 w"

section \<open>A constant rate\<close>

text \<open>The observations of a rate that nobody changes, with a clock that never runs backwards.\<close>

definition steady :: "u64 \<Rightarrow> (u64 \<times> rat) list \<Rightarrow> bool" where
  "steady bps obs \<longleftrightarrow> (\<forall>(r, lag)\<in>set obs. r = bps \<and> 0 \<le> lag)"

definition steady_turns :: "u64 \<Rightarrow> turn list \<Rightarrow> bool" where
  "steady_turns bps turns \<longleftrightarrow> (\<forall>tn\<in>set turns. t_rate tn = bps \<and> steady bps (t_obs tn))"

text \<open>
  A bucket at time \<open>t\<close>: never more than one second's worth of tokens, and no fewer than none.
\<close>

definition bucket_ok :: "u64 \<Rightarrow> rat \<Rightarrow> bucket \<Rightarrow> bool" where
  "bucket_ok bps t b \<longleftrightarrow> 0 \<le> available b \<and> available b \<le> rate bps \<and> last_refill b \<le> t"

lemma rate_pos: "bps \<noteq> 0 \<Longrightarrow> 0 < rate bps"
  unfolding rate_def of_nat_0_less_iff by (simp add: neq0_conv [symmetric] unsigned_eq_0_iff)

lemma rate_nonneg [simp]: "0 \<le> rate bps"
  unfolding rate_def by (rule of_nat_0_le_iff)

lemma steady_simps [simp]:
  "steady bps []"
  "steady bps ((r, lag) # obs) \<longleftrightarrow> r = bps \<and> 0 \<le> lag \<and> steady bps obs"
  by (auto simp: steady_def)

lemma wait_secs_pos: "0 < wait_secs bps d"
  unfolding wait_secs_def by (rule less_le_trans [OF _ max.cobounded2]) simp

lemma refill_ok:
  assumes "bucket_ok bps t b" and "bps \<noteq> 0" and "t \<le> now"
  shows "bucket_ok bps now (refill bps now b)"
    and "available (refill bps now b) \<le> available b + (now - last_refill b) * rate bps"
    and "last_refill (refill bps now b) = now"
  using assms rate_pos [OF assms(2)] by (auto simp: bucket_ok_def refill_def)

text \<open>
  The account of the bucket: what is taken and what remains never exceeds what was there and
  what the elapsed time has brought.
\<close>

lemma acquire_loop_account:
  assumes "bucket_ok bps t b" and "bps \<noteq> 0" and "steady bps obs" and "0 \<le> needed"
    and "acquire_loop needed bps obs t b = Some (b', t')"
  shows "bucket_ok bps t' b' \<and> t \<le> t' \<and> last_refill b' = t' \<and>
    needed + available b' \<le> available b + (t' - last_refill b) * rate bps"
  using assms
proof (induction obs arbitrary: t b)
  case Nil
  then show ?case by simp
next
  case (Cons ob obs)
  obtain r lag where ob: "ob = (r, lag)" by fastforce
  let ?now = "t + lag"
  let ?b = "refill bps ?now b"
  have lag: "0 \<le> lag" "r = bps" "steady bps obs"
    using Cons.prems(3) ob by simp_all
  note ok = refill_ok [OF Cons.prems(1,2), of ?now, simplified, OF lag(1)]
  show ?case
  proof (cases "needed \<le> available ?b")
    case True
    then show ?thesis
      using Cons.prems(4,5) ob lag ok by (auto simp: bucket_ok_def Let_def)
  next
    case False
    let ?t = "?now + wait_secs bps (needed - available ?b)"
    have "?now \<le> ?t" using wait_secs_pos [of bps "needed - available ?b"] by simp
    then have b: "bucket_ok bps ?t ?b"
      using ok(1) by (auto simp: bucket_ok_def)
    have "acquire_loop needed bps obs ?t ?b = Some (b', t')"
      using Cons.prems(5) ob lag False by (simp add: Let_def)
    from Cons.IH [OF b Cons.prems(2) lag(3) Cons.prems(4) this]
    have "bucket_ok bps t' b'" "?t \<le> t'" "last_refill b' = t'"
      "needed + available b' \<le> available ?b + (t' - ?now) * rate bps"
      using ok(3) by simp_all
    moreover have "available ?b + (t' - ?now) * rate bps \<le> available b + (t' - last_refill b) * rate bps"
      using ok(2) by (simp add: algebra_simps)
    ultimately show ?thesis
      using \<open>?now \<le> ?t\<close> lag(1) by linarith
  qed
qed

lemma acquire_account:
  assumes "bucket_ok bps t b" and "bps \<noteq> 0" and "steady bps obs" and "n \<noteq> 0"
    and "acquire n bps obs t b = Some (b', t')"
  shows "bucket_ok bps t' b' \<and> t \<le> t' \<and> last_refill b' = t' \<and>
    of_nat n + available b' \<le> available b + (t' - last_refill b) * rate bps"
proof -
  have "acquire_loop (of_nat n) bps obs t b = Some (b', t')"
    using assms(2,4,5) by (simp add: acquire_def)
  then show ?thesis
    by (intro acquire_loop_account [OF assms(1-3)]) simp
qed

lemma write_all_grows: "length (w_out (snd (write_all bs w))) \<le> length (w_out w) + length bs"
  by (auto simp: write_all_def split: option.splits)

lemma copy_loop_account:
  assumes "bucket_ok bps t b" and "bps \<noteq> 0" and "steady_turns bps turns"
    and "copy_loop turns t b acc w = (r, w', t')"
  shows "t \<le> t' \<and>
    of_nat (length (w_out w')) - of_nat (length (w_out w)) \<le> available b + (t' - last_refill b) * rate bps"
  using assms
proof (induction turns arbitrary: t b acc w)
  case Nil
  then show ?case by (auto simp: bucket_ok_def rate_def)
next
  case (Cons tn turns)
  have stay: ?case if "w' = w" "t' = t"
    using that Cons.prems(1) by (auto simp: bucket_ok_def rate_def)
  have tn: "t_rate tn = bps" "steady bps (t_obs tn)" "steady_turns bps turns"
    using Cons.prems(3) by (simp_all add: steady_turns_def)
  show ?case
  proof (cases "\<exists>bs b1 t1. t_read tn = Data bs \<and> bs \<noteq> [] \<and>
      acquire (length bs) bps (t_obs tn) t b = Some (b1, t1)")
    case False
    then show ?thesis
      using Cons.prems(4) tn(1)
      by (intro stay; auto split: read_result.splits if_splits option.splits)
  next
    case True
    then obtain bs b1 t1 where bs: "t_read tn = Data bs" "bs \<noteq> []"
      and a: "acquire (length bs) bps (t_obs tn) t b = Some (b1, t1)" by blast
    have acc: "bucket_ok bps t1 b1" "t \<le> t1" "last_refill b1 = t1"
      "of_nat (length bs) + available b1 \<le> available b + (t1 - last_refill b) * rate bps"
      using acquire_account [OF Cons.prems(1,2) tn(2) _ a] bs(2) by simp_all
    obtain e w1 where w: "write_all bs w = (e, w1)" by fastforce
    have grow: "(of_nat (length (w_out w1)) :: rat) \<le> of_nat (length (w_out w)) + of_nat (length bs)"
      using write_all_grows [of bs w] w by (simp flip: of_nat_add)
    have "t1 \<le> t' \<and>
      of_nat (length (w_out w')) - of_nat (length (w_out w1)) \<le> available b1 + (t' - t1) * rate bps"
    proof (cases e)
      case (Inl x)
      then show ?thesis using Cons.prems(4) tn(1) bs a w acc by (simp add: bucket_ok_def)
    next
      case (Inr u)
      then have "copy_loop turns t1 b1 (acc + of_nat (length bs)) w1 = (r, w', t')"
        using Cons.prems(4) tn(1) bs a w by simp
      from Cons.IH [OF acc(1) Cons.prems(2) tn(3) this] show ?thesis
        by (simp add: acc(3))
    qed
    with acc grow show ?thesis
      by (simp add: algebra_simps)
  qed
qed

lemma bucket_new_ok: "bucket_ok bps t (bucket_new bps t)"
  by (simp add: bucket_ok_def bucket_new_def)

section \<open>Waiting\<close>

lemma acquire_steady_returns:
  assumes "bps \<noteq> 0" and "n \<le> unat bps" and "steady bps obs" and "2 \<le> length obs"
  shows "\<exists>b' t'. acquire n bps obs t b = Some (b', t')"
proof -
  obtain l1 l2 obs' where obs: "obs = (bps, l1) # (bps, l2) # obs'" and lags: "0 \<le> l1" "0 \<le> l2"
    using assms(3,4) by (cases obs; cases "tl obs") (auto simp: steady_def)
  let ?n = "of_nat n :: rat"
  let ?b1 = "refill bps (t + l1) b"
  let ?t2 = "t + l1 + wait_secs bps (?n - available ?b1) + l2"
  have pos: "0 < rate bps" by (rule rate_pos) (rule assms(1))
  have cap: "?n \<le> rate bps"
    using assms(2) by (simp add: rate_def del: of_nat_unat)
  have "?n \<le> available (refill bps ?t2 ?b1)"
  proof -
    have last: "last_refill ?b1 = t + l1"
      using assms(1) by (simp add: refill_def)
    have "(?n - available ?b1) / rate bps \<le> wait_secs bps (?n - available ?b1) + l2"
      using lags(2) by (simp add: wait_secs_def)
    then have "?n - available ?b1 \<le> (?t2 - last_refill ?b1) * rate bps"
      using pos last by (simp add: divide_le_eq mult.commute)
    with cap show ?thesis
      using assms(1) by (simp add: refill_def [of bps ?t2])
  qed
  then show ?thesis
    by (simp add: acquire_def obs Let_def)
qed

lemma acquire_loop_capped:
  assumes "bps \<noteq> 0" and "rate bps < needed" and "steady bps obs"
  shows "acquire_loop needed bps obs t b = None"
  using assms(3)
proof (induction obs arbitrary: t b)
  case Nil
  then show ?case by simp
next
  case (Cons ob obs)
  obtain r lag where ob: "ob = (r, lag)" by fastforce
  have "available (refill bps (t + lag) b) \<le> rate bps"
    using assms(1) by (simp add: refill_def)
  with assms(2) Cons ob show ?case
    by (auto simp: Let_def)
qed

lemma acquire_loop_unlimited_midway:
  assumes "available b < needed" and "\<forall>(r, lag)\<in>set obs. r = 0"
  shows "acquire_loop needed bps obs t b = None"
  using assms
  by (induction obs arbitrary: t) (auto simp: refill_def Let_def)

section \<open>What is copied\<close>

text \<open>The bytes of the reads before the end of the stream.\<close>

fun stream_data :: "turn list \<Rightarrow> bytes" where
  "stream_data [] = []"
| "stream_data (tn # turns) =
     (case t_read tn of Data bs \<Rightarrow> if bs = [] then [] else bs @ stream_data turns | ReadFailed e \<Rightarrow> [])"

text \<open>A turn that does not fail and whose bytes fit under the rate.\<close>

definition turn_ok :: "u64 \<Rightarrow> turn \<Rightarrow> bool" where
  "turn_ok bps tn \<longleftrightarrow>
     (case t_read tn of Data bs \<Rightarrow> bps = 0 \<or> length bs \<le> unat bps | ReadFailed e \<Rightarrow> False) \<and>
     t_rate tn = bps \<and> steady bps (t_obs tn) \<and> 2 \<le> length (t_obs tn)"

lemma copy_loop_complete:
  assumes "\<forall>tn\<in>set turns. turn_ok bps tn" and "w_budget w = None"
  shows "\<exists>t'. copy_loop turns t b acc w =
    (Copied (acc + of_nat (length (stream_data turns))), w\<lparr>w_out := w_out w @ stream_data turns\<rparr>, t')"
  using assms
proof (induction turns arbitrary: t b acc w)
  case Nil
  then show ?case by simp
next
  case (Cons tn turns)
  have ok: "turn_ok bps tn" using Cons.prems(1) by simp
  then obtain bs where bs: "t_read tn = Data bs" and rate: "t_rate tn = bps"
    by (auto simp: turn_ok_def split: read_result.splits)
  show ?case
  proof (cases "bs = []")
    case True
    then show ?thesis by (simp add: bs)
  next
    case False
    obtain b1 t1 where a: "acquire (length bs) bps (t_obs tn) t b = Some (b1, t1)"
    proof (cases "bps = 0")
      case True
      then show thesis using that by (simp add: acquire_def)
    next
      case False
      then show thesis
        using that acquire_steady_returns [OF False, of "length bs" "t_obs tn" t b] ok bs
        by (auto simp: turn_ok_def)
    qed
    have w: "write_all bs w = (Inr (), w\<lparr>w_out := w_out w @ bs\<rparr>)"
      using Cons.prems(2) by (simp add: write_all_def)
    obtain t' where "copy_loop turns t1 b1 (acc + of_nat (length bs)) (w\<lparr>w_out := w_out w @ bs\<rparr>) =
      (Copied (acc + of_nat (length bs) + of_nat (length (stream_data turns))),
       w\<lparr>w_out := (w_out w @ bs) @ stream_data turns\<rparr>, t')"
      using Cons.IH [of "w\<lparr>w_out := w_out w @ bs\<rparr>"] Cons.prems by fastforce
    then show ?thesis
      using False by (simp add: bs rate a w add.assoc)
  qed
qed

section \<open>An example\<close>

definition demo_turns :: "turn list" where
  "demo_turns =
     [\<lparr>t_read = Data [1, 2, 3, 4], t_rate = 4, t_obs = [(4, 0), (4, 0)]\<rparr>,
      \<lparr>t_read = Data [5, 6], t_rate = 4, t_obs = [(4, 0), (4, 0)]\<rparr>]"

lemma rate_4: "rate 4 = 4"
  by (simp add: rate_def)

lemma demo_turns_copy:
  "copy_throttled 4 demo_turns 0 \<lparr>w_out = [], w_budget = None\<rparr> =
     (Copied 6, \<lparr>w_out = [1, 2, 3, 4, 5, 6], w_budget = None\<rparr>, 1 / 2)"
  by (simp add: copy_throttled_def demo_turns_def bucket_new_def acquire_def Let_def refill_def
      rate_4 wait_secs_def write_all_def)

section \<open>Properties\<close>

text \<open>
  C14. The cap holds: while the rate is \<open>bps\<close>, a throttled copy that runs from \<open>now\<close> to \<open>t'\<close>
  has written at most \<open>bps\<close> bytes per elapsed second and one second's worth of initial credit,
  however it ended and however the peer cut the stream into reads.
\<close>

theorem throttled_copy_respects_rate:
  assumes "bps \<noteq> 0" and "steady_turns bps turns" and "copy_throttled bps turns now w = (r, w', t')"
  shows "now \<le> t' \<and>
    of_nat (length (w_out w')) - of_nat (length (w_out w)) \<le> rate bps * (1 + (t' - now))"
proof -
  have "now \<le> t'" "of_nat (length (w_out w')) - of_nat (length (w_out w)) \<le>
      available (bucket_new bps now) + (t' - last_refill (bucket_new bps now)) * rate bps"
    using copy_loop_account [OF bucket_new_ok assms(1,2) assms(3) [unfolded copy_throttled_def]] by auto
  then show ?thesis
    by (simp add: bucket_new_def algebra_simps)
qed

theorem throttled_copy_respects_rate_witness:
  "of_nat (length [1, 2, 3, 4, 5, 6 :: u8]) - of_nat (length ([] :: bytes)) \<le> rate 4 * (1 + (1 / 2 - 0))"
proof -
  have "steady_turns 4 demo_turns"
    by (simp add: steady_turns_def demo_turns_def)
  from throttled_copy_respects_rate [OF _ this demo_turns_copy] show ?thesis
    by simp
qed

text \<open>
  C23. A throttled copy terminates and is complete: if every read is no larger than the rate
  (or the rate is 0, unlimited) and the writer takes everything, then all bytes up to the end
  of the stream are written in order, no call of \<open>acquire\<close> sleeps more than once, and the
  result is their number (modulo \<open>2^64\<close>).
\<close>

theorem throttled_copy_complete:
  assumes "\<forall>tn\<in>set turns. turn_ok bps tn" and "w_budget w = None"
  shows "\<exists>t'. copy_throttled bps turns now w =
    (Copied (of_nat (length (stream_data turns))), w\<lparr>w_out := w_out w @ stream_data turns\<rparr>, t')"
  unfolding copy_throttled_def
  using copy_loop_complete [OF assms, of now "bucket_new bps now" 0] by simp

theorem throttled_copy_complete_witness:
  "\<exists>t'. copy_throttled 4 demo_turns 3 \<lparr>w_out = [9], w_budget = None\<rparr> =
     (Copied 6, \<lparr>w_out = [9, 1, 2, 3, 4, 5, 6], w_budget = None\<rparr>, t')"
proof -
  have "\<forall>tn\<in>set demo_turns. turn_ok 4 tn"
    by (simp add: turn_ok_def demo_turns_def)
  from throttled_copy_complete [OF this, of "\<lparr>w_out = [9], w_budget = None\<rparr>" 3] show ?thesis
    by (simp add: demo_turns_def)
qed

text \<open>
  C24. A read larger than the rate never gets through: the bucket is capped at one second's
  worth, so a chunk of more than \<open>bps\<close> bytes waits for tokens that cannot accumulate. The copy
  is asleep after any number of wake-ups. A full read buffer of 16 KiB is such a chunk for
  every rate below 16384 bytes per second.
\<close>

theorem large_read_never_passes:
  assumes "bps \<noteq> 0" and "unat bps < length bs" and "t_read tn = Data bs"
    and "t_rate tn = bps" and "steady bps (t_obs tn)"
  shows "copy_throttled bps (tn # turns) now w = (Asleep, w, now)"
proof -
  have "rate bps < of_nat (length bs)"
    using assms(2) by (simp add: rate_def del: of_nat_unat)
  then have "acquire_loop (of_nat (length bs)) bps (t_obs tn) now (bucket_new bps now) = None"
    by (rule acquire_loop_capped [OF assms(1) _ assms(5)])
  moreover have "bs \<noteq> []" using assms(2) by auto
  ultimately show ?thesis
    using assms(1,3,4) by (simp add: copy_throttled_def acquire_def)
qed

theorem large_read_never_passes_witness:
  "copy_throttled 8192
     [\<lparr>t_read = Data (replicate COPY_BUFFER 0), t_rate = 8192, t_obs = replicate 1000 (8192, 1)\<rparr>] 0
     \<lparr>w_out = [], w_budget = None\<rparr> = (Asleep, \<lparr>w_out = [], w_budget = None\<rparr>, 0)"
  by (rule large_read_never_passes) (auto simp: COPY_BUFFER_def steady_def)

text \<open>
  Switching a stream to unlimited does not release a writer that is already waiting: while
  the cell holds 0, \<open>refill\<close> adds no tokens, so \<open>acquire\<close> does not return however often it wakes.
\<close>

theorem unlimited_does_not_release_waiter:
  assumes "bps \<noteq> 0" and "available b < of_nat n" and "n \<noteq> 0" and "\<forall>(r, lag)\<in>set obs. r = 0"
  shows "acquire n bps obs t b = None"
  using assms acquire_loop_unlimited_midway [OF assms(2,4)] by (simp add: acquire_def)

theorem unlimited_does_not_release_waiter_witness:
  "acquire 2 4 (replicate 1000 (0, 60)) 0 \<lparr>available = 1, last_refill = 0\<rparr> = None"
  by (rule unlimited_does_not_release_waiter) auto

end
