(* ===== verification/Control.thy ===== *)
theory Control
  imports Registry Protocol
begin

text \<open>
  \<^verbatim>\<open>crates/server/src/control.rs\<close>: one control connection, from the \<open>Hello\<close> on its first stream
  to the end of its command loop. A bidirectional stream that the peer opens is a \<open>bi_stream\<close>:
  what the peer sends on it, how much it will still take, and the readings of the clock while
  it is served. The connection's other inputs are the random session id and, at the end of the
  list of streams, the error of \<open>accept_bi\<close> that ends the loop. Shutting a stream down has no
  effect on the registry and is left out, as are the log lines. The task that sends heartbeats
  to the client is \<open>heartbeat_task\<close>; it only writes to streams of its own.
\<close>

section \<open>Streams and outcomes\<close>

record bi_stream =
  bs_reader :: reader
  bs_writer :: writer
  bs_now0 :: int
  bs_now :: int

text \<open>
  How the loop goes on after one command: with the next stream, out of the loop to the clean-up
  (\<open>Break\<close>), out of the whole function with an error (\<open>Abort\<close>, the \<open>?\<close> operator), or by unwinding
  after a panic.
\<close>

datatype flow = Continue | Break | Abort frame_error | Unwind

datatype hello_outcome = Open string | Rejected | HelloFailed "frame_error fault"

datatype session_end =
    Refused
  | HelloError "frame_error fault"
  | NoStream
  | Clean
  | Aborted frame_error
  | Panicked

section \<open>Handlers\<close>

definition handle_register ::
  "json_codec \<Rightarrow> string \<Rightarrow> 'id \<Rightarrow> register \<Rightarrow> writer \<Rightarrow> 'id server_state
     \<Rightarrow> (frame_error + unit) \<times> 'id server_state \<times> writer" where
  "handle_register js gname remote reg w st =
     (case group_of st gname of
        None \<Rightarrow> (Inr (), st, w)
      | Some g \<Rightarrow>
          (case register_service (reg_service reg) remote g of
             (Inr prev, g') \<Rightarrow>
               (case write_to js (RegisterOk \<lparr>regok_service = reg_service reg\<rparr>) w of
                  (r, w') \<Rightarrow> (r, with_group gname (\<lambda>_. g') st, w'))
           | (Inl e, g') \<Rightarrow>
               (Inr (), with_group gname (\<lambda>_. g') st,
                snd (write_to js (ControlError 3 ''register failed: invalid service name'') w))))"

definition handle_subscribe ::
  "json_codec \<Rightarrow> 'id id_codec \<Rightarrow> 'id server_state \<Rightarrow> string \<Rightarrow> subscribe \<Rightarrow> writer
     \<Rightarrow> (frame_error + unit) \<times> writer" where
  "handle_subscribe js ir st gname sub w =
     (case lookup_service st gname (sub_service sub) of
        Some provider \<Rightarrow>
          write_to js (SubscribeOk \<lparr>subok_service = sub_service sub,
            provider_node_id = Some (id_to_string ir provider), relay_required = False\<rparr>) w
      | None \<Rightarrow>
          write_to js (SubscribeOk \<lparr>subok_service = sub_service sub,
            provider_node_id = None, relay_required = False\<rparr>) w)"

definition flow_of :: "frame_error + unit \<Rightarrow> flow" where
  "flow_of r = (case r of Inl e \<Rightarrow> Abort e | Inr _ \<Rightarrow> Continue)"

text \<open>The body of the main loop, for one stream.\<close>

definition serve_stream ::
  "json_codec \<Rightarrow> 'id id_codec \<Rightarrow> string \<Rightarrow> 'id \<Rightarrow> bi_stream \<Rightarrow> 'id server_state
     \<Rightarrow> flow \<times> 'id server_state \<times> writer" where
  "serve_stream js ir gname remote bs st =
     (case fst (read_from js (bs_reader bs)) of
        Inl Panic \<Rightarrow> (Unwind, st, bs_writer bs)
      | Inl (Error e) \<Rightarrow> (Break, st, bs_writer bs)
      | Inr (Register reg) \<Rightarrow>
          (case handle_register js gname remote reg (bs_writer bs) st of
             (r, st', w') \<Rightarrow> (flow_of r, st', w'))
      | Inr (Subscribe sub) \<Rightarrow>
          (case handle_subscribe js ir st gname sub (bs_writer bs) of
             (r, w') \<Rightarrow> (flow_of r, st, w'))
      | Inr Heartbeat \<Rightarrow>
          (Continue, with_group gname (touch_session (bs_now0 bs) (bs_now bs) remote) st, bs_writer bs)
      | Inr (Hello _) \<Rightarrow>
          (Continue, st, snd (write_to js (ControlError 2 ''Hello already received'') (bs_writer bs)))
      | Inr other \<Rightarrow> (Continue, st, bs_writer bs))"

text \<open>The first stream: \<open>Hello\<close>, the token check, and the answer.\<close>

definition hello_step ::
  "json_codec \<Rightarrow> 'id \<Rightarrow> u64 \<Rightarrow> bi_stream \<Rightarrow> 'id server_state
     \<Rightarrow> hello_outcome \<times> 'id server_state \<times> writer" where
  "hello_step js remote sid bs st =
     (case fst (read_from js (bs_reader bs)) of
        Inl e \<Rightarrow> (HelloFailed e, st, bs_writer bs)
      | Inr (Hello h) \<Rightarrow>
          (case authenticate st (group_token h) of
             None \<Rightarrow> (Rejected, st, snd (write_to js (ControlError 1 ''unknown group'') (bs_writer bs)))
           | Some g \<Rightarrow>
               let st' = with_group (g_name g) (touch_session (bs_now0 bs) (bs_now bs) remote) st in
               (case write_to js (HelloOk \<lparr>session_id = sid\<rparr>) (bs_writer bs) of
                  (Inl e, w') \<Rightarrow> (HelloFailed (Error e), st', w')
                | (Inr _, w') \<Rightarrow> (Open (g_name g), st', w')))
      | Inr other \<Rightarrow> (Rejected, st, bs_writer bs))"

section \<open>A whole session\<close>

text \<open>The loop over the streams that arrive, with the writers it leaves.\<close>

fun serve_loop ::
  "json_codec \<Rightarrow> 'id id_codec \<Rightarrow> string \<Rightarrow> 'id \<Rightarrow> bi_stream list \<Rightarrow> 'id server_state
     \<Rightarrow> flow \<times> 'id server_state \<times> writer list" where
  "serve_loop js ir gname remote [] st = (Break, st, [])"
| "serve_loop js ir gname remote (bs # streams) st =
     (case serve_stream js ir gname remote bs st of
        (Continue, st', w) \<Rightarrow>
          (case serve_loop js ir gname remote streams st' of (fl, st'', ws) \<Rightarrow> (fl, st'', w # ws))
      | (fl, st', w) \<Rightarrow> (fl, st', [w]))"

text \<open>
  What follows the loop: after a \<open>break\<close> the heartbeat task is aborted and the session dropped; the \<open>?\<close>
  operator and a panic leave the function before that.
\<close>

definition end_session :: "string \<Rightarrow> 'id \<Rightarrow> flow \<Rightarrow> 'id server_state \<Rightarrow> session_end \<times> 'id server_state" where
  "end_session gname remote fl st =
     (case fl of
        Abort e \<Rightarrow> (Aborted e, st)
      | Unwind \<Rightarrow> (Panicked, st)
      | _ \<Rightarrow> (Clean, with_group gname (drop_session remote) st))"

definition run_session ::
  "json_codec \<Rightarrow> 'id id_codec \<Rightarrow> 'id \<Rightarrow> u64 \<Rightarrow> bi_stream option \<Rightarrow> bi_stream list \<Rightarrow> 'id server_state
     \<Rightarrow> session_end \<times> 'id server_state \<times> writer list" where
  "run_session js ir remote sid first streams st =
     (case first of
        None \<Rightarrow> (NoStream, st, [])
      | Some bs \<Rightarrow>
          (case hello_step js remote sid bs st of
             (Rejected, st1, w) \<Rightarrow> (Refused, st1, [w])
           | (HelloFailed e, st1, w) \<Rightarrow> (HelloError e, st1, [w])
           | (Open gname, st1, w) \<Rightarrow>
               (case serve_loop js ir gname remote streams st1 of
                  (fl, st2, ws) \<Rightarrow> (case end_session gname remote fl st2 of (e, st3) \<Rightarrow> (e, st3, w # ws)))))"

text \<open>
  The task that sends heartbeats to the client, started after the \<open>HelloOk\<close>: a frame on every stream
  that \<open>open_bi\<close> gives, until one cannot be written. It only writes to the connection, never to
  the registry.
\<close>

fun heartbeat_task :: "json_codec \<Rightarrow> writer list \<Rightarrow> writer list" where
  "heartbeat_task js [] = []"
| "heartbeat_task js (w # ws) =
     (case write_to js Heartbeat w of
        (Inl e, w') \<Rightarrow> [w']
      | (Inr _, w') \<Rightarrow> w' # heartbeat_task js ws)"

text \<open>What the protocol handler reports to the router: \<open>None\<close> when the task has panicked.\<close>

fun control_accept :: "session_end \<Rightarrow> (session_end + unit) option" where
  "control_accept Clean = Some (Inr ())"
| "control_accept Refused = Some (Inr ())"
| "control_accept Panicked = None"
| "control_accept (HelloError Panic) = None"
| "control_accept ending = Some (Inl ending)"

section \<open>Effects of the handlers\<close>

lemma write_heartbeat_unlimited:
  "write_to js Heartbeat \<lparr>w_out = [], w_budget = None\<rparr> = (Inr (), \<lparr>w_out = wire js Heartbeat, w_budget = None\<rparr>)"
  by (simp add: write_to_def write_all_def wire_def MAX_FRAME_PAYLOAD_def)

lemma with_group_const:
  "group_of st n = Some g \<Longrightarrow> with_group n (\<lambda>_. f g) st = with_group n f st"
  by (simp add: with_group_def group_of_def)

lemma handle_register_state:
  "fst (snd (handle_register js n remote reg w st)) =
     with_group n (group_exec (Registered (reg_service reg) remote)) st"
proof (cases "group_of st n")
  case None
  then show ?thesis
    by (simp add: handle_register_def with_group_def group_of_def)
next
  case (Some g)
  obtain r g' where rg: "register_service (reg_service reg) remote g = (r, g')"
    by fastforce
  then have "g' = group_exec (Registered (reg_service reg) remote) g"
    by (simp add: group_exec_def)
  with Some rg show ?thesis
    using with_group_const [OF Some, of "group_exec (Registered (reg_service reg) remote)"]
    by (auto simp: handle_register_def split: sum.splits prod.splits)
qed

text \<open>What one stream can do to the registry.\<close>

lemma touch_session_exec: "touch_session a b c = group_exec (Touched a b c)"
  by (rule ext) (simp add: group_exec_def)

lemma drop_session_exec: "drop_session c = group_exec (Dropped c)"
  by (rule ext) (simp add: group_exec_def)

lemma serve_stream_state:
  "fst (snd (serve_stream js ir n remote bs st)) =
     (case fst (read_from js (bs_reader bs)) of
        Inr (Register reg) \<Rightarrow> with_group n (group_exec (Registered (reg_service reg) remote)) st
      | Inr Heartbeat \<Rightarrow> with_group n (group_exec (Touched (bs_now0 bs) (bs_now bs) remote)) st
      | _ \<Rightarrow> st)"
proof (cases "fst (read_from js (bs_reader bs))")
  case (Inl e)
  then show ?thesis
    by (cases e) (simp_all add: serve_stream_def)
next
  case (Inr f)
  then show ?thesis
    by (cases f)
      (simp_all add: serve_stream_def touch_session_exec handle_register_state case_prod_beta)
qed

lemma serve_stream_exec:
  obtains "fst (snd (serve_stream js ir n remote bs st)) = st"
  | op where "fst (snd (serve_stream js ir n remote bs st)) = with_group n (group_exec op) st"
      "op = Touched (bs_now0 bs) (bs_now bs) remote \<or> (\<exists>s. op = Registered s remote)"
proof (cases "fst (read_from js (bs_reader bs))")
  case (Inl e)
  then show ?thesis using that(1) by (simp add: serve_stream_state)
next
  case (Inr f)
  then show ?thesis
    using that by (cases f) (simp_all add: serve_stream_state)
qed

lemma hello_step_state:
  "fst (snd (hello_step js remote sid bs st)) =
     (case fst (read_from js (bs_reader bs)) of
        Inr (Hello h) \<Rightarrow>
          (case authenticate st (group_token h) of
             Some g \<Rightarrow> with_group (g_name g) (group_exec (Touched (bs_now0 bs) (bs_now bs) remote)) st
           | None \<Rightarrow> st)
      | _ \<Rightarrow> st)"
proof (cases "fst (read_from js (bs_reader bs))")
  case (Inl e)
  then show ?thesis
    by (simp add: hello_step_def)
next
  case (Inr f)
  then show ?thesis
    by (cases f) (auto simp: hello_step_def touch_session_exec Let_def split: option.splits prod.splits sum.splits)
qed

lemma hello_step_Open:
  assumes "hello_step js remote sid bs st = (Open n, st', w)"
  obtains h g where "fst (read_from js (bs_reader bs)) = Inr (Hello h)"
    and "authenticate st (group_token h) = Some g" and "n = g_name g"
proof -
  obtain f where f: "fst (read_from js (bs_reader bs)) = Inr f"
    using assms by (cases "fst (read_from js (bs_reader bs))") (auto simp: hello_step_def)
  have "\<exists>h g. f = Hello h \<and> authenticate st (group_token h) = Some g \<and> n = g_name g"
    using assms f
    by (cases f) (auto simp: hello_step_def Let_def split: option.splits prod.splits sum.splits)
  with f that show thesis
    by blast
qed

section \<open>Effects of a session\<close>

lemma lookup_service_exec:
  assumes "registry_wf st"
  shows "lookup_service (with_group n (group_exec op) st) m s =
    (if m \<noteq> n \<or> group_of st n = None then lookup_service st m s
     else case op of
       Registered s' p \<Rightarrow> if s = s' \<and> length s' \<le> 32 then Some p else lookup_service st m s
     | Touched a b p \<Rightarrow> lookup_service st m s
     | Dropped p \<Rightarrow> if lookup_service st m s = Some p then None else lookup_service st m s)"
proof (cases "group_of st n")
  case None
  then show ?thesis
    by (simp add: lookup_service_def group_of_with_group split: option.splits)
next
  case (Some g)
  then have "group_wf g" using registry_wf_group [OF assms] by simp
  with Some show ?thesis
    by (cases op) (auto simp: lookup_service_def group_of_with_group group_exec_def
        group_lookup_register group_lookup_drop)
qed

lemma exec_other_group: "m \<noteq> n \<Longrightarrow> group_of (with_group n (group_exec op) st) m = group_of st m"
  by (simp add: group_of_with_group)

lemma registry_wf_exec [inv_intros]: "registry_wf st \<Longrightarrow> registry_wf (with_group n (group_exec op) st)"
  by (rule registry_wf_with_group) (simp_all add: group_exec_keeps)

definition session_in :: "'id server_state \<Rightarrow> string \<Rightarrow> 'id \<Rightarrow> bool" where
  "session_in st n c \<longleftrightarrow> (case group_of st n of Some g \<Rightarrow> has_session g c | None \<Rightarrow> False)"

lemma session_in_exec:
  "session_in (with_group n (group_exec op) st) m c \<longleftrightarrow>
    (if m \<noteq> n \<or> group_of st n = None then session_in st m c
     else case op of
       Registered s p \<Rightarrow> session_in st m c
     | Touched a b p \<Rightarrow> c = p \<or> session_in st m c
     | Dropped p \<Rightarrow> c \<noteq> p \<and> session_in st m c)"
  by (cases op) (auto simp: session_in_def group_of_with_group group_exec_def has_session_simps
      split: option.splits)

text \<open>The names that the \<open>Register\<close> commands on some streams ask for and that are short enough to be taken.\<close>

definition registered_by :: "json_codec \<Rightarrow> bi_stream list \<Rightarrow> string list" where
  "registered_by js streams =
     concat (map (\<lambda>bs. case fst (read_from js (bs_reader bs)) of
       Inr (Register reg) \<Rightarrow> if length (reg_service reg) \<le> 32 then [reg_service reg] else []
     | _ \<Rightarrow> []) streams)"

lemma registered_by_Nil [simp]: "registered_by js [] = []"
  by (simp add: registered_by_def)

lemma registered_by_Cons: "registered_by js (bs # bss) = registered_by js [bs] @ registered_by js bss"
  by (simp add: registered_by_def)

text \<open>
  What the commands of one client do: in its group \<open>n\<close> exactly the given names come to it, from whoever
  provided them before; all other names keep their provider. Other groups, other clients' sessions
  and the relay tables stay as they are.
\<close>

definition confined :: "string \<Rightarrow> 'id \<Rightarrow> string list \<Rightarrow> 'id server_state \<Rightarrow> 'id server_state \<Rightarrow> bool" where
  "confined n remote names st st' \<longleftrightarrow>
     (\<forall>m. m \<noteq> n \<longrightarrow> group_of st' m = group_of st m) \<and>
     (\<forall>s. lookup_service st' n s = (if s \<in> set names then Some remote else lookup_service st n s)) \<and>
     (\<forall>q. q \<noteq> remote \<longrightarrow> session_in st' n q = session_in st n q) \<and>
     relay_rates st' = relay_rates st \<and> atomics st' = atomics st \<and>
     next_stream_id st' = next_stream_id st \<and> relay_rate_overrides st' = relay_rate_overrides st"

fun op_client :: "(string, 'id) dir_op \<Rightarrow> 'id" where
  "op_client (Registered s p) = p"
| "op_client (Touched a b p) = p"
| "op_client (Dropped p) = p"

lemma confined_refl [simp]: "confined n remote [] st st"
  by (simp add: confined_def)

lemma confined_trans:
  "confined n r a st st' \<Longrightarrow> confined n r b st' st'' \<Longrightarrow> confined n r (a @ b) st st''"
  unfolding confined_def by auto

lemma session_in_group: "session_in st n c \<Longrightarrow> group_of st n \<noteq> None"
  by (cases "group_of st n") (simp_all add: session_in_def)

lemma confined_exec:
  assumes "registry_wf st" and "group_of st n \<noteq> None"
  shows "confined n remote [] st (with_group n (group_exec (Touched a b remote)) st)"
    and "confined n remote (if length s \<le> 32 then [s] else []) st (with_group n (group_exec (Registered s remote)) st)"
  using assms
  by (auto simp: confined_def exec_other_group lookup_service_exec session_in_exec)

lemma serve_stream_confined:
  assumes "registry_wf st" and "session_in st n remote" and "serve_stream js ir n remote bs st = (fl, st', w)"
  shows "registry_wf st' \<and> session_in st' n remote \<and> confined n remote (registered_by js [bs]) st st'"
proof -
  note g = session_in_group [OF assms(2)]
  have st': "st' = fst (snd (serve_stream js ir n remote bs st))"
    using assms(3) by simp
  show ?thesis
  proof (cases "fst (read_from js (bs_reader bs))")
    case (Inl e)
    then show ?thesis
      using assms(1,2) by (simp add: st' serve_stream_state registered_by_def)
  next
    case (Inr f)
    then show ?thesis
      using assms(1,2) confined_exec [OF assms(1) g]
      by (cases f) (auto simp: st' serve_stream_state registered_by_def registry_wf_exec session_in_exec)
  qed
qed

lemma serve_loop_confined:
  assumes "registry_wf st" and "session_in st n remote" and "serve_loop js ir n remote streams st = (fl, st', ws)"
  shows "registry_wf st' \<and> session_in st' n remote \<and> confined n remote (registered_by js (take (length ws) streams)) st st'"
  using assms
proof (induction streams arbitrary: st ws)
  case Nil
  then show ?case by simp
next
  case (Cons bs streams)
  obtain fl1 st1 w1 where s: "serve_stream js ir n remote bs st = (fl1, st1, w1)"
    using prod_cases3 by blast
  note one = serve_stream_confined [OF Cons.prems(1,2) s]
  show ?case
  proof (cases "fl1 = Continue")
    case True
    with Cons.prems(3) s obtain ws' where rest: "serve_loop js ir n remote streams st1 = (fl, st', ws')"
      and ws: "ws = w1 # ws'"
      by (auto split: prod.splits)
    have "registry_wf st' \<and> session_in st' n remote \<and>
        confined n remote (registered_by js (take (length ws') streams)) st1 st'"
      using Cons.IH [OF _ _ rest] one by blast
    moreover from this one have "confined n remote
        (registered_by js [bs] @ registered_by js (take (length ws') streams)) st st'"
      by (blast intro: confined_trans)
    ultimately show ?thesis
      using registered_by_Cons [of js bs "take (length ws') streams"] by (simp add: ws)
  next
    case False
    then have "st' = st1" "ws = [w1]"
      using Cons.prems(3) s by (cases fl1; simp)+
    with one show ?thesis by simp
  qed
qed

lemma hello_step_confined:
  assumes "registry_wf st" and "hello_step js remote sid bs st = (Open n, st', w)"
  shows "registry_wf st' \<and> session_in st' n remote \<and> confined n remote [] st st'"
proof -
  obtain h g where h: "fst (read_from js (bs_reader bs)) = Inr (Hello h)"
    and g: "authenticate st (group_token h) = Some g" and n: "n = g_name g"
    using hello_step_Open [OF assms(2)] by blast
  have "st' = with_group n (group_exec (Touched (bs_now0 bs) (bs_now bs) remote)) st"
    using hello_step_state [of js remote sid bs st] assms(2) h g n by simp
  moreover have "group_of st n \<noteq> None"
    using authenticate_SomeD [OF assms(1) g] n by simp
  ultimately show ?thesis
    using assms(1) confined_exec(1) [OF assms(1)] by (auto simp: registry_wf_exec session_in_exec)
qed

text \<open>A run over streams that can all be read and whose loop has not aborted goes on with the next stream.\<close>

lemma serve_loop_append:
  assumes "serve_loop js ir n remote before st = (Break, st', ws)"
    and "list_all (\<lambda>b. \<exists>f. fst (read_from js (bs_reader b)) = Inr f) before"
  shows "length ws = length before \<and>
    serve_loop js ir n remote (before @ rest) st =
      (case serve_loop js ir n remote rest st' of (fl, st'', ws') \<Rightarrow> (fl, st'', ws @ ws'))"
  using assms
proof (induction before arbitrary: st ws)
  case Nil
  then show ?case by (simp add: case_prod_beta)
next
  case (Cons b before)
  obtain fl1 st1 w1 where s: "serve_stream js ir n remote b st = (fl1, st1, w1)"
    using prod_cases3 by blast
  obtain f where "fst (read_from js (bs_reader b)) = Inr f"
    using Cons.prems(2) by auto
  then have "fl1 \<noteq> Break"
    using s by (cases f) (auto simp: serve_stream_def flow_of_def split: prod.splits sum.splits)
  with Cons.prems(1) s obtain ws' where "fl1 = Continue" "ws = w1 # ws'"
      "serve_loop js ir n remote before st1 = (Break, st', ws')"
    by (cases fl1) (auto split: prod.splits)
  with Cons.IH [of st1 ws'] Cons.prems(2) s show ?case
    by (simp add: case_prod_beta)
qed

lemma serve_stream_aborts:
  assumes "group_of st n \<noteq> None"
    and "fst (read_from js (bs_reader cmd)) = Inr (Register reg) \<and> length (reg_service reg) \<le> 32 \<and>
        fst (write_to js (RegisterOk \<lparr>regok_service = reg_service reg\<rparr>) (bs_writer cmd)) = Inl e \<or>
      fst (read_from js (bs_reader cmd)) = Inr (Subscribe sub) \<and>
        fst (write_to js (SubscribeOk \<lparr>subok_service = sub_service sub,
          provider_node_id = map_option (id_to_string ir) (lookup_service st n (sub_service sub)),
          relay_required = False\<rparr>) (bs_writer cmd)) = Inl e"
  shows "\<exists>st' w. serve_stream js ir n remote cmd st = (Abort e, st', w)"
  using assms
  by (auto simp: serve_stream_def handle_register_def register_service_def handle_subscribe_def flow_of_def
      split: prod.splits option.splits)

text \<open>The effect of the \<open>Hello\<close> and all commands of a session, before its end.\<close>

lemma session_body_confined:
  assumes "registry_wf st" and "hello_step js remote sid bs st = (Open n, st1, w1)"
    and "serve_loop js ir n remote streams st1 = (fl, st2, ws)"
  shows "registry_wf st2 \<and> session_in st2 n remote \<and> confined n remote (registered_by js (take (length ws) streams)) st st2"
  using hello_step_confined [OF assms(1,2)] serve_loop_confined [OF _ _ assms(3)] confined_trans [of n remote "[]"]
  by fastforce

lemma run_session_Open:
  assumes "hello_step js remote sid bs st = (Open n, st1, w1)"
    and "serve_loop js ir n remote streams st1 = (fl, st2, ws)"
  shows "run_session js ir remote sid (Some bs) streams st =
    (fst (end_session n remote fl st2), snd (end_session n remote fl st2), w1 # ws)"
  using assms by (simp add: run_session_def case_prod_beta)

lemma end_session_simps [simp]:
  "end_session n remote (Abort e) st = (Aborted e, st)" "end_session n remote Unwind st = (Panicked, st)"
  "end_session n remote Break st = (Clean, with_group n (group_exec (Dropped remote)) st)"
  "end_session n remote Continue st = (Clean, with_group n (group_exec (Dropped remote)) st)"
  by (simp_all add: end_session_def drop_session_exec)


section \<open>Example streams\<close>

text \<open>A stream on which the peer sends one frame in the example codec and takes \<open>budget\<close> bytes.\<close>

definition demo_stream :: "frame \<Rightarrow> nat option \<Rightarrow> bi_stream" where
  "demo_stream f budget = \<lparr>bs_reader = \<lparr>r_in = wire marked_codec f, r_end = Eof\<rparr>,
     bs_writer = \<lparr>w_out = [], w_budget = budget\<rparr>, bs_now0 = 1, bs_now = 2\<rparr>"

lemma read_demo_stream:
  assumes "frame_wf f" and "\<exists>p. encode_payload marked_codec f = Inr p \<and> length p \<le> MAX_FRAME_PAYLOAD"
  shows "fst (read_from marked_codec (bs_reader (demo_stream f budget))) = Inr f"
proof -
  let ?w = "\<lparr>w_out = [], w_budget = None\<rparr>"
  have "write_to marked_codec f ?w = (Inr (), snd (write_to marked_codec f ?w))"
    using assms(2) by (auto simp: write_to_def write_all_def)
  from read_from_wire [OF marked_codec_ok assms(1) this, of "[]" Eof] show ?thesis
    by (simp add: demo_stream_def)
qed

lemma demo_hello:
  "fst (read_from marked_codec (bs_reader (demo_stream (Hello \<lparr>group_token = ''t1'', client_info = []\<rparr>) b))) =
     Inr (Hello \<lparr>group_token = ''t1'', client_info = []\<rparr>)"
  "fst (read_from marked_codec (bs_reader (demo_stream (Hello \<lparr>group_token = ''x'', client_info = []\<rparr>) b))) =
     Inr (Hello \<lparr>group_token = ''x'', client_info = []\<rparr>)"
  "fst (read_from marked_codec (bs_reader (demo_stream (Register \<lparr>reg_service = ''web''\<rparr>) b))) =
     Inr (Register \<lparr>reg_service = ''web''\<rparr>)"
  by (rule read_demo_stream;
      simp add: ascii_utf8 write_json_def marked_codec_def put_str_def U16_MAX_def
        MAX_FRAME_PAYLOAD_def)+

lemma demo_authenticate:
  "authenticate demo_state ''x'' = None"
  "map_option g_name (authenticate demo_state ''t1'') = Some ''a''"
  by (simp_all add: authenticate_def demo_state_def)

lemma demo_hello_step:
  assumes "budget = None"
  shows "\<exists>w. hello_step marked_codec 8 5 (demo_stream (Hello \<lparr>group_token = ''t1'', client_info = []\<rparr>) budget) demo_state =
    (Open ''a'', with_group ''a'' (group_exec (Touched 1 2 8)) demo_state, w)"
proof -
  obtain g where g: "authenticate demo_state ''t1'' = Some g" "g_name g = ''a''"
    using demo_authenticate(2) by auto
  have "fst (write_to marked_codec (HelloOk \<lparr>session_id = 5\<rparr>) \<lparr>w_out = [], w_budget = None\<rparr>) = Inr ()"
    by (simp add: write_to_def write_json_def marked_codec_def put_u64_def write_all_def
        U16_MAX_def MAX_FRAME_PAYLOAD_def)
  then show ?thesis
    using g demo_hello(1) [of budget] assms
    by (auto simp: hello_step_def Let_def touch_session_exec demo_stream_def split: prod.splits sum.splits)
qed

section \<open>Properties\<close>

text \<open>
  A peer that does not present the token of a group has no effect: whatever its first
  stream holds, if it is not a \<open>Hello\<close> with a configured token then the session ends without a
  change of the registry, whatever else the peer sends, and a \<open>Hello\<close> with an unknown token is
  answered with \<open>ControlError 1\<close>.
\<close>

theorem no_token_no_effect:
  assumes "\<forall>h. fst (read_from js (bs_reader bs)) = Inr (Hello h) \<longrightarrow> authenticate st (group_token h) = None"
  shows "fst (snd (run_session js ir remote sid (Some bs) streams st)) = st \<and>
    (fst (run_session js ir remote sid (Some bs) streams st) = Refused \<or>
     (\<exists>e. fst (run_session js ir remote sid (Some bs) streams st) = HelloError e)) \<and>
    (\<forall>h. fst (read_from js (bs_reader bs)) = Inr (Hello h) \<longrightarrow>
       snd (snd (run_session js ir remote sid (Some bs) streams st)) =
         [snd (write_to js (ControlError 1 ''unknown group'') (bs_writer bs))])"
proof (cases "fst (read_from js (bs_reader bs))")
  case (Inl e)
  then show ?thesis by (simp add: run_session_def hello_step_def)
next
  case (Inr f)
  with assms show ?thesis
    by (cases f) (simp_all add: run_session_def hello_step_def)
qed

theorem no_token_no_effect_witness:
  "fst (snd (run_session marked_codec unary_ids 8 5
     (Some (demo_stream (Hello \<lparr>group_token = ''x'', client_info = []\<rparr>) None))
     [demo_stream (Register \<lparr>reg_service = ''web''\<rparr>) None] demo_state)) = demo_state"
proof -
  let ?bs = "demo_stream (Hello \<lparr>group_token = ''x'', client_info = []\<rparr>) None"
  have "\<forall>h. fst (read_from marked_codec (bs_reader ?bs)) = Inr (Hello h) \<longrightarrow>
    authenticate demo_state (group_token h) = None"
    by (simp add: demo_hello demo_authenticate)
  from no_token_no_effect [OF this] show ?thesis by blast
qed



text \<open>
  When a session ends cleanly, its client is gone from the group: it has no session there
  and provides no service there, whatever it registered.
\<close>

theorem clean_end_removes_client:
  assumes "registry_wf st" and "hello_step js remote sid bs st = (Open n, st1, w1)"
    and "run_session js ir remote sid (Some bs) streams st = (Clean, st', ws)"
  shows "\<not> session_in st' n remote \<and> (\<forall>s. lookup_service st' n s \<noteq> Some remote)"
proof -
  obtain fl st2 ws2 where loop: "serve_loop js ir n remote streams st1 = (fl, st2, ws2)"
    using prod_cases3 by blast
  have st2: "registry_wf st2" "group_of st2 n \<noteq> None"
    using session_body_confined [OF assms(1,2) loop] session_in_group [of st2 n remote] by simp_all
  have "st' = with_group n (group_exec (Dropped remote)) st2"
    using run_session_Open [OF assms(2) loop] assms(3) by (cases fl) auto
  then show ?thesis
    using st2 by (auto simp: session_in_exec lookup_service_exec split: if_splits)
qed

text \<open>
  C26. A session that ends through the \<open>?\<close> on a failed write skips that clean-up. When, after any
  commands that were all answered, the reply to a \<open>Register\<close> or a \<open>Subscribe\<close> cannot be written, the
  function returns that error, serves no later stream, and leaves everything in the registry:
  the client's session, and every service that it registered, the one of the failed reply included.
\<close>

theorem failed_reply_leaves_registration:
  assumes "registry_wf st" and "hello_step js remote sid bs st = (Open n, st1, w1)"
    and "serve_loop js ir n remote before st1 = (Break, st2, ws)"
    and "list_all (\<lambda>b. \<exists>f. fst (read_from js (bs_reader b)) = Inr f) before"
    and "fst (read_from js (bs_reader cmd)) = Inr (Register reg) \<and> length (reg_service reg) \<le> 32 \<and>
        fst (write_to js (RegisterOk \<lparr>regok_service = reg_service reg\<rparr>) (bs_writer cmd)) = Inl e \<or>
      fst (read_from js (bs_reader cmd)) = Inr (Subscribe sub) \<and>
        fst (write_to js (SubscribeOk \<lparr>subok_service = sub_service sub,
          provider_node_id = map_option (id_to_string ir) (lookup_service st2 n (sub_service sub)),
          relay_required = False\<rparr>) (bs_writer cmd)) = Inl e"
  shows "\<exists>st' w. run_session js ir remote sid (Some bs) (before @ cmd # later) st = (Aborted e, st', w1 # ws @ [w]) \<and>
    session_in st' n remote \<and>
    (\<forall>s\<in>set (registered_by js (before @ [cmd])). lookup_service st' n s = Some remote)"
proof -
  have body: "registry_wf st2" "session_in st2 n remote"
    using session_body_confined [OF assms(1-3)] by blast+
  obtain st' w where cmd: "serve_stream js ir n remote cmd st2 = (Abort e, st', w)"
    using serve_stream_aborts [OF session_in_group [OF body(2)] assms(5)] by blast
  have all: "length ws = length before"
    "serve_loop js ir n remote (before @ cmd # later) st1 = (Abort e, st', ws @ [w])"
    using serve_loop_append [OF assms(3,4)] cmd by auto
  have "registered_by js (take (length (ws @ [w])) (before @ cmd # later)) = registered_by js (before @ [cmd])"
    by (simp add: all(1))
  then show ?thesis
    using session_body_confined [OF assms(1,2) all(2)] run_session_Open [OF assms(2) all(2)]
    by (auto simp: confined_def)
qed

theorem clean_end_removes_client_witness:
  "\<exists>st' ws. run_session marked_codec unary_ids 8 5
     (Some (demo_stream (Hello \<lparr>group_token = ''t1'', client_info = []\<rparr>) None)) [] demo_state = (Clean, st', ws)
     \<and> \<not> session_in st' ''a'' 8"
proof -
  let ?bs = "demo_stream (Hello \<lparr>group_token = ''t1'', client_info = []\<rparr>) None"
  obtain w where h: "hello_step marked_codec 8 5 ?bs demo_state =
    (Open ''a'', with_group ''a'' (group_exec (Touched 1 2 8)) demo_state, w)"
    using demo_hello_step by blast
  obtain st' ws where r: "run_session marked_codec unary_ids 8 5 (Some ?bs) [] demo_state = (Clean, st', ws)"
    using run_session_Open [OF h, of unary_ids "[]"] by simp
  from clean_end_removes_client [OF demo_state_wf h r] r show ?thesis
    by blast
qed

theorem failed_reply_leaves_registration_witness:
  "\<exists>e st' ws. run_session marked_codec unary_ids 8 5
     (Some (demo_stream (Hello \<lparr>group_token = ''t1'', client_info = []\<rparr>) None))
     [demo_stream (Register \<lparr>reg_service = ''web''\<rparr>) (Some 0)] demo_state = (Aborted e, st', ws)
     \<and> lookup_service st' ''a'' ''web'' = Some 8"
proof -
  let ?bs = "demo_stream (Hello \<lparr>group_token = ''t1'', client_info = []\<rparr>) None"
  let ?cmd = "demo_stream (Register \<lparr>reg_service = ''web''\<rparr>) (Some 0)"
  obtain w where h: "hello_step marked_codec 8 5 ?bs demo_state =
    (Open ''a'', with_group ''a'' (group_exec (Touched 1 2 8)) demo_state, w)"
    using demo_hello_step by blast
  have f: "fst (write_to marked_codec (RegisterOk \<lparr>regok_service = ''web''\<rparr>) (bs_writer ?cmd)) = Inl (Io ConnectionLost)"
    by (simp add: demo_stream_def write_to_def write_all_def write_json_def marked_codec_def put_str_def
        U16_MAX_def MAX_FRAME_PAYLOAD_def frame_head_def)
  have reply: "fst (write_to marked_codec (RegisterOk
      \<lparr>regok_service = reg_service \<lparr>reg_service = ''web''\<rparr>\<rparr>) (bs_writer ?cmd)) = Inl (Io ConnectionLost)"
    using f by simp
  have reg: "registered_by marked_codec ([] @ [?cmd]) = [''web'']"
    using demo_hello(3) by (simp add: registered_by_def)
  show ?thesis
    using failed_reply_leaves_registration [OF demo_state_wf h, where before = "[]" and cmd = ?cmd and later = "[]"
        and ir = unary_ids and reg = "\<lparr>reg_service = ''web''\<rparr>" and e = "Io ConnectionLost"] demo_hello(3) reply reg
    by fastforce
qed

end
