(* ===== verification/Relay.thy ===== *)
theory Relay
  imports Registry Ratelimit Control
begin

text \<open>
  \<^verbatim>\<open>crates/server/src/relay.rs\<close>: which streams on the data ALPN are relayed and at which initial
  rate (\<open>RelayHandler::accept_loop\<close>), and the bookkeeping of one relayed stream (\<open>run_relay\<close>).

  The outcome of dialling the provider and the whole life of an open tunnel are inputs of
  \<open>run_relay\<close>: while the bytes are copied, other tasks go on changing the registry, so the copy
  is a function from the state to the state it leaves. The byte copies themselves are
  \<open>copy_throttled\<close> of the theory \<open>Ratelimit\<close> and \<open>tokio::io::copy\<close>; how the two directions of a tunnel
  interleave is the subject of the theory \<open>Relay_Pump\<close>.
\<close>

section \<open>Opening a relayed stream\<close>

text \<open>The reasons for which the loop shuts a stream down and goes on with the next one.\<close>

datatype 'id relay_refusal =
    ReadDataOpenFailed frame_error
  | ExpectedDataOpen frame
  | MalformedProvider string
  | MalformedConsumer string
  | ConsumerMismatch 'id
  | ProviderMismatch 'id
  | ServiceNotRegistered string

record 'id relay_task =
  rt_initial_bps :: "u64 option"
  rt_provider :: 'id
  rt_service :: string
  rt_reader :: reader

definition lookup_service_any_group :: "'id server_state \<Rightarrow> string \<Rightarrow> 'id option" where
  "lookup_service_any_group st service =
     map_option (\<lambda>(g, s, p). p) (List.find (\<lambda>(g, s, p). s = service) (dump_services st))"

text \<open>\<open>default_bps\<close> is the shared default cell, or \<open>None\<close> when the master switch is off.\<close>

definition initial_reply_bps :: "nat option \<Rightarrow> 'id \<Rightarrow> 'id server_state \<Rightarrow> u64 option" where
  "initial_reply_bps default_bps consumer st =
     map_option (\<lambda>h. case lookup_relay_rate_override st consumer of
        Some bps \<Rightarrow> bps | None \<Rightarrow> atomic_load st h) default_bps"

text \<open>One turn of the loop; a panic in the decoder takes the whole task down.\<close>

definition relay_open ::
  "json_codec \<Rightarrow> 'id id_codec \<Rightarrow> nat option \<Rightarrow> 'id \<Rightarrow> reader \<Rightarrow> 'id server_state
     \<Rightarrow> 'id relay_refusal fault + 'id relay_task" where
  "relay_open js ir default_bps remote r st =
     (case read_from js r of
        (Inl Panic, _) \<Rightarrow> Inl Panic
      | (Inl (Error e), _) \<Rightarrow> Inl (Error (ReadDataOpenFailed e))
      | (Inr (DataOpen svc provider_str consumer_str _), r') \<Rightarrow>
          and_then (ok_or (parse_endpoint_id ir provider_str) (Error (MalformedProvider provider_str)))
            (\<lambda>target_provider.
          and_then (ok_or (parse_endpoint_id ir consumer_str) (Error (MalformedConsumer consumer_str)))
            (\<lambda>consumer.
          if consumer \<noteq> remote then Inl (Error (ConsumerMismatch consumer))
          else
            (case lookup_service_any_group st svc of
               Some p \<Rightarrow>
                 if p = target_provider
                 then Inr \<lparr>rt_initial_bps = initial_reply_bps default_bps consumer st,
                        rt_provider = p, rt_service = svc, rt_reader = r'\<rparr>
                 else Inl (Error (ProviderMismatch p))
             | None \<Rightarrow> Inl (Error (ServiceNotRegistered svc)))))
      | (Inr other, _) \<Rightarrow> Inl (Error (ExpectedDataOpen other)))"

text \<open>
  The loop over the streams of one connection, each with the state the registry has when it is
  read: the tasks that are spawned, and whether the loop was ended by a panic.
\<close>

fun accept_loop ::
  "json_codec \<Rightarrow> 'id id_codec \<Rightarrow> nat option \<Rightarrow> 'id \<Rightarrow> (reader \<times> 'id server_state) list \<Rightarrow> 'id relay_task list \<times> bool" where
  "accept_loop js ir default_bps remote [] = ([], False)"
| "accept_loop js ir default_bps remote ((r, st) # streams) =
     (case relay_open js ir default_bps remote r st of
        Inl Panic \<Rightarrow> ([], True)
      | Inl (Error _) \<Rightarrow> accept_loop js ir default_bps remote streams
      | Inr task \<Rightarrow>
          (case accept_loop js ir default_bps remote streams of (tasks, dead) \<Rightarrow> (task # tasks, dead)))"

text \<open>The loop ends without an error when the connection is closed; \<open>None\<close> is a task that panicked.\<close>

definition relay_accept ::
  "json_codec \<Rightarrow> 'id id_codec \<Rightarrow> nat option \<Rightarrow> 'id \<Rightarrow> (reader \<times> 'id server_state) list \<Rightarrow> (unit + unit) option" where
  "relay_accept js ir default_bps remote streams =
     (if snd (accept_loop js ir default_bps remote streams) then None else Some (Inr ()))"

section \<open>The life of a relayed stream\<close>

datatype relay_error = RelayAlpn alpn_error | RelayConnect | RelayOpenBi | RelayCopy io_error

definition relay_start :: "u64 option \<Rightarrow> 'id server_state \<Rightarrow> u64 \<times> nat option \<times> 'id server_state" where
  "relay_start initial st =
     (case alloc_stream_id st of
        (stream_id, st1) \<Rightarrow>
          (case initial of
             Some bps \<Rightarrow>
               (case atomic_new bps st1 of
                  (h, st2) \<Rightarrow> (stream_id, Some h, register_relay_rate stream_id h st2))
           | None \<Rightarrow> (stream_id, None, st1)))"

definition run_relay ::
  "('id \<Rightarrow> bytes \<Rightarrow> bool) \<Rightarrow> bool
     \<Rightarrow> (nat option \<Rightarrow> 'id server_state \<Rightarrow> (io_error + u64 \<times> u64) \<times> 'id server_state)
     \<Rightarrow> 'id relay_task \<Rightarrow> 'id server_state \<Rightarrow> (relay_error + u64 \<times> u64) \<times> 'id server_state" where
  "run_relay connect open_bi tunnel task st =
     (case alpn_for_service (rt_service task) of
        Inl e \<Rightarrow> (Inl (RelayAlpn e), st)
      | Inr alpn \<Rightarrow>
          if \<not> connect (rt_provider task) alpn then (Inl RelayConnect, st)
          else if \<not> open_bi then (Inl RelayOpenBi, st)
          else
            (case relay_start (rt_initial_bps task) st of
               (stream_id, reply_bps, st1) \<Rightarrow>
                 (case tunnel reply_bps st1 of
                    (Inl e, st2) \<Rightarrow> (Inl (RelayCopy e), unregister_relay_rate stream_id st2)
                  | (Inr copied, st2) \<Rightarrow> (Inr copied, unregister_relay_rate stream_id st2))))"

text \<open>
  \<open>copy_bidirectional\<close>: both directions run to their end, then the first error in the order
  request, reply is returned. The reply goes through the throttle when there is a rate cell.
\<close>

definition copy_bidirectional ::
  "(unit \<Rightarrow> io_error + u64) \<Rightarrow> (unit \<Rightarrow> io_error + u64) \<Rightarrow> (nat \<Rightarrow> io_error + u64) \<Rightarrow> nat option
     \<Rightarrow> io_error + u64 \<times> u64" where
  "copy_bidirectional request plain_reply throttled_reply reply_bps =
     (let r1 = request ();
          r2 = (case reply_bps of Some h \<Rightarrow> throttled_reply h | None \<Rightarrow> plain_reply ())
      in and_then r1 (\<lambda>request_bytes. and_then r2 (\<lambda>reply_bytes. Inr (request_bytes, reply_bytes))))"

section \<open>Facts\<close>

text \<open>Without a panic every stream is judged on its own; a panic ends the service of the connection.\<close>

lemma accept_loop_independent:
  assumes "\<forall>(r, st)\<in>set streams. relay_open js ir cap remote r st \<noteq> Inl Panic"
  shows "accept_loop js ir cap remote streams =
    (List.map_filter (\<lambda>(r, st). case relay_open js ir cap remote r st of Inr task \<Rightarrow> Some task | Inl _ \<Rightarrow> None) streams,
     False)"
  using assms
  by (induction streams) (auto simp: map_filter_simps split: sum.splits fault.splits)

lemma accept_loop_panic:
  assumes "\<forall>(r, st)\<in>set xs. relay_open js ir cap remote r st \<noteq> Inl Panic"
    and "relay_open js ir cap remote r st = Inl Panic"
  shows "accept_loop js ir cap remote (xs @ (r, st) # ys) = (fst (accept_loop js ir cap remote xs), True)"
  using assms
  by (induction xs) (auto split: sum.splits fault.splits prod.splits)

lemma lookup_any_Some:
  assumes "lookup_service_any_group st svc = Some p"
  shows "\<exists>g. (g, svc, p) \<in> set (dump_services st)"
  using assms by (auto simp: lookup_service_any_group_def find_Some_iff) (metis nth_mem)

lemma lookup_any_None_iff:
  "lookup_service_any_group st svc = None \<longleftrightarrow> (\<nexists>g p. (g, svc, p) \<in> set (dump_services st))"
  by (auto simp: lookup_service_any_group_def find_None_iff)

lemma dump_services_iff:
  assumes "registry_wf st"
  shows "(n, s, p) \<in> set (dump_services st) \<longleftrightarrow> lookup_service st n s = Some p"
proof -
  have wf: "hm_wf (groups st)"
    using assms by (simp add: registry_wf_def)
  have "(n, s, p) \<in> set (dump_services st) \<longleftrightarrow>
      (\<exists>g r. hm_get (groups st) n = Some g \<and> (s, r) \<in> set (services g) \<and> provider_id r = p)"
    using hm_entries_iff [OF wf, of n] by (force simp: dump_services_def)
  also have "\<dots> \<longleftrightarrow> lookup_service st n s = Some p"
    using registry_wf_group [OF assms]
    by (auto simp: lookup_service_def group_of_def group_lookup_def group_wf_def hm_entries_iff
        split: option.splits)
  finally show ?thesis .
qed

lemma relay_open_Inr:
  assumes "relay_open js ir d remote r st = Inr task"
  shows "\<exists>ps cs pr. fst (read_from js r) = Inr (DataOpen (rt_service task) ps cs pr) \<and>
    parse_endpoint_id ir ps = Some (rt_provider task) \<and> parse_endpoint_id ir cs = Some remote \<and>
    lookup_service_any_group st (rt_service task) = Some (rt_provider task) \<and>
    rt_initial_bps task = initial_reply_bps d remote st"
proof -
  obtain f r' where f: "read_from js r = (Inr f, r')"
    using assms
    by (auto simp: relay_open_def split: prod.splits sum.splits fault.splits)
  with assms show ?thesis
    by (cases f) (auto simp: relay_open_def and_then_Inr_iff split: if_splits option.splits)
qed

lemma relay_start_state:
  assumes "registry_wf st" and "relay_start initial st = (sid, h, st1)"
  shows "registry_wf st1" and "sid = next_stream_id st"
    and "case initial of
        None \<Rightarrow> h = None \<and> relay_rates st1 = relay_rates st
      | Some bps \<Rightarrow> \<exists>a. h = Some a \<and> hm_get (relay_rates st1) sid = Some a \<and> atomic_load st1 a = bps"
proof -
  have wf: "registry_wf (snd (alloc_stream_id st))"
    by (intro inv_intros assms(1))
  show "sid = next_stream_id st"
    using assms(2) by (auto simp: relay_start_def alloc_stream_id_def split: option.splits prod.splits)
  show "registry_wf st1"
    using assms(2) wf registry_wf_register_rate [OF wf]
    by (auto simp: relay_start_def split: option.splits prod.splits) (metis fst_conv snd_conv)+
  show "case initial of
        None \<Rightarrow> h = None \<and> relay_rates st1 = relay_rates st
      | Some bps \<Rightarrow> \<exists>a. h = Some a \<and> hm_get (relay_rates st1) sid = Some a \<and> atomic_load st1 a = bps"
    using assms(2)
    by (auto simp: relay_start_def alloc_stream_id_def atomic_new_def register_relay_rate_def
        hm_get_insert atomic_load_def split: option.splits prod.splits)
qed

lemma relay_start_fresh:
  assumes "registry_wf st" and "relay_start initial st = (sid, h, st1)"
  shows "groups st1 = groups st" and "next_stream_id st1 = next_stream_id st + 1"
    and "h = Some a \<Longrightarrow> a \<notin> snd ` set (relay_rates st)"
proof -
  show "groups st1 = groups st" "next_stream_id st1 = next_stream_id st + 1"
    using assms(2) by (auto simp: relay_start_def alloc_stream_id_def atomic_new_def register_relay_rate_def
        split: option.splits)
  assume "h = Some a"
  then have a: "a = length (atomics st)"
    using assms(2) by (auto simp: relay_start_def alloc_stream_id_def atomic_new_def split: option.splits)
  have "x < length (atomics st)" if "x \<in> snd ` set (relay_rates st)" for x
    using assms(1) that by (auto simp: registry_wf_def)
  from this [of a] show "a \<notin> snd ` set (relay_rates st)"
    unfolding a by (meson less_irrefl)
qed

text \<open>A tunnel that does nothing, for the examples.\<close>

definition idle_tunnel :: "nat option \<Rightarrow> 'id server_state \<Rightarrow> (io_error + u64 \<times> u64) \<times> 'id server_state" where
  "idle_tunnel h st = (Inr (0, 0), st)"

definition demo_open :: reader where
  "demo_open = bs_reader (demo_stream (DataOpen ''ssh'' (replicate 7 CHR ''i'') (replicate 9 CHR ''i'')
     (replicate 32 0)) None)"

lemma demo_open_read:
  "fst (read_from marked_codec demo_open) =
     Inr (DataOpen ''ssh'' (replicate 7 CHR ''i'') (replicate 9 CHR ''i'') (replicate 32 0))"
  unfolding demo_open_def
  by (rule read_demo_stream)
    (simp_all add: ascii_utf8 list_all_iff put_field_def U16_MAX_def MAX_FRAME_PAYLOAD_def)

lemma demo_open_accepted:
  "\<exists>task. relay_open marked_codec unary_ids (Some 0) 9 demo_open demo_state = Inr task \<and>
     rt_service task = ''ssh'' \<and> rt_provider task = 7"
proof -
  obtain r' where r: "read_from marked_codec demo_open =
    (Inr (DataOpen ''ssh'' (replicate 7 CHR ''i'') (replicate 9 CHR ''i'') (replicate 32 0)), r')"
    using demo_open_read by (metis prod.collapse)
  have "lookup_service_any_group demo_state ''ssh'' = Some 7"
    by (simp add: lookup_service_any_group_def dump_services_def demo_state_def)
  then show ?thesis
    by (simp add: relay_open_def r parse_endpoint_id_def unary_ids_def list_all_iff)
qed

section \<open>Properties\<close>

text \<open>
  C13. A stream is relayed only to the registered provider of the service it names, only for
  the peer that it claims to come from, and at the right rate: unlimited when the master switch
  is off, and otherwise the override for that peer or, without one, the current default.
\<close>

theorem relay_opens_only_as_claimed:
  assumes "registry_wf st" and "relay_open js ir default_bps remote r st = Inr task"
  shows "(\<exists>ps cs pr n. fst (read_from js r) = Inr (DataOpen (rt_service task) ps cs pr) \<and>
      parse_endpoint_id ir ps = Some (rt_provider task) \<and> parse_endpoint_id ir cs = Some remote \<and>
      lookup_service st n (rt_service task) = Some (rt_provider task)) \<and>
    rt_initial_bps task =
      (case default_bps of None \<Rightarrow> None
       | Some h \<Rightarrow> Some (case hm_get (relay_rate_overrides st) remote of
           Some bps \<Rightarrow> bps | None \<Rightarrow> atomics st ! h))"
proof -
  from relay_open_Inr [OF assms(2)] obtain ps cs pr where
    f: "fst (read_from js r) = Inr (DataOpen (rt_service task) ps cs pr)"
      "parse_endpoint_id ir ps = Some (rt_provider task)" "parse_endpoint_id ir cs = Some remote"
    and l: "lookup_service_any_group st (rt_service task) = Some (rt_provider task)"
    and i: "rt_initial_bps task = initial_reply_bps default_bps remote st" by blast
  from lookup_any_Some [OF l] obtain n where "lookup_service st n (rt_service task) = Some (rt_provider task)"
    using dump_services_iff [OF assms(1)] by blast
  with f i show ?thesis
    by (auto simp: initial_reply_bps_def lookup_relay_rate_override_def atomic_load_def
        split: option.splits)
qed

theorem relay_opens_only_as_claimed_witness:
  "\<exists>task. relay_open marked_codec unary_ids (Some 0) 9 demo_open demo_state = Inr task \<and>
     rt_initial_bps task = Some 50"
proof -
  obtain task where t: "relay_open marked_codec unary_ids (Some 0) 9 demo_open demo_state = Inr task"
    using demo_open_accepted by blast
  from relay_opens_only_as_claimed [OF demo_state_wf t] t show ?thesis
    by (simp add: demo_state_def)
qed

text \<open>
  C28. The rate table follows the life of a relayed stream. When the provider has been dialled, the
  tunnel is run, whatever it does, on a registry that has given the stream the next id; with a rate
  limit it is in the table under this id, with a new cell of its own that holds the initial rate,
  and the copy gets this cell; without one the table is as before and the copy gets no cell. When
  the tunnel is over, with success or an error, \<open>run_relay\<close> reports its result, and the table is the
  one that the tunnel left without the id. If the provider cannot be dialled, there is an error and
  the registry is untouched.
\<close>

theorem relay_rate_lifecycle:
  assumes "registry_wf st"
  shows "if \<exists>alpn. alpn_for_service (rt_service task) = Inr alpn \<and> connect (rt_provider task) alpn \<and> open_bi
    then \<exists>h st1. registry_wf st1 \<and> groups st1 = groups st \<and> next_stream_id st1 = next_stream_id st + 1 \<and>
      (case rt_initial_bps task of
         None \<Rightarrow> h = None \<and> relay_rates st1 = relay_rates st
       | Some bps \<Rightarrow> \<exists>a. h = Some a \<and> hm_get (relay_rates st1) (next_stream_id st) = Some a \<and>
           atomic_load st1 a = bps \<and> a \<notin> snd ` set (relay_rates st)) \<and>
      (\<forall>tunnel. case tunnel h st1 of (copied, st2) \<Rightarrow>
        fst (run_relay connect open_bi tunnel task st) = (case copied of Inl e \<Rightarrow> Inl (RelayCopy e) | Inr n \<Rightarrow> Inr n) \<and>
        (\<forall>i. hm_get (relay_rates (snd (run_relay connect open_bi tunnel task st))) i =
          (if i = next_stream_id st then None else hm_get (relay_rates st2) i)))
    else \<forall>tunnel. \<exists>e. run_relay connect open_bi tunnel task st = (Inl e, st)"
proof (cases "\<exists>alpn. alpn_for_service (rt_service task) = Inr alpn \<and> connect (rt_provider task) alpn \<and> open_bi")
  case True
  then obtain alpn where a: "alpn_for_service (rt_service task) = Inr alpn" "connect (rt_provider task) alpn" "open_bi"
    by blast
  obtain sid h st1 where s: "relay_start (rt_initial_bps task) st = (sid, h, st1)"
    using prod_cases3 by blast
  note start = relay_start_state [OF assms s]
  have "case tunnel h st1 of (copied, st2) \<Rightarrow>
        fst (run_relay connect open_bi tunnel task st) = (case copied of Inl e \<Rightarrow> Inl (RelayCopy e) | Inr n \<Rightarrow> Inr n) \<and>
        (\<forall>i. hm_get (relay_rates (snd (run_relay connect open_bi tunnel task st))) i =
          (if i = next_stream_id st then None else hm_get (relay_rates st2) i))" for tunnel
    using a s start(2)
    by (auto simp: run_relay_def unregister_relay_rate_def hm_get_remove split: sum.splits prod.splits)
  moreover have "case rt_initial_bps task of
      None \<Rightarrow> h = None \<and> relay_rates st1 = relay_rates st
    | Some bps \<Rightarrow> \<exists>a. h = Some a \<and> hm_get (relay_rates st1) (next_stream_id st) = Some a \<and>
        atomic_load st1 a = bps \<and> a \<notin> snd ` set (relay_rates st)"
    using start(2,3) relay_start_fresh(3) [OF assms s] by (auto split: option.splits)
  ultimately show ?thesis
    unfolding if_P [OF True] using start(1) relay_start_fresh(1,2) [OF assms s] by blast
next
  case False
  then show ?thesis
    by (auto simp: run_relay_def split: sum.splits)
qed

definition demo_task :: "nat relay_task" where
  "demo_task = \<lparr>rt_initial_bps = Some 50, rt_provider = 7, rt_service = ''ssh'',
     rt_reader = \<lparr>r_in = [], r_end = Eof\<rparr>\<rparr>"

theorem relay_rate_lifecycle_witness:
  "\<exists>h st1. hm_get (relay_rates st1) 2 = Some h \<and> atomic_load st1 h = 50 \<and>
     fst (run_relay (\<lambda>_ _. True) True (\<lambda>h' st'. (if h' = Some h \<and> st' = st1 then Inr (1, 2) else Inl ConnectionLost, st')) demo_task demo_state) =
       Inr (1, 2) \<and>
     hm_get (relay_rates (snd (run_relay (\<lambda>_ _. True) True idle_tunnel demo_task demo_state))) 2 = None"
proof -
  have "valid_service_name ''ssh''"
    by code_simp
  then have alpn: "\<exists>alpn. alpn_for_service (rt_service demo_task) = Inr alpn \<and> (\<lambda>_ _. True) (rt_provider demo_task) alpn \<and> True"
    using alpn_for_service_iff by (auto simp: demo_task_def)
  have n: "next_stream_id demo_state = 2" "rt_initial_bps demo_task = Some 50"
    by (simp_all add: demo_state_def demo_task_def)
  from relay_rate_lifecycle [OF demo_state_wf, of demo_task "\<lambda>_ _. True" True, unfolded if_P [OF alpn] n option.case]
  obtain h st1 where h: "hm_get (relay_rates st1) 2 = Some h" "atomic_load st1 h = 50"
    and run: "\<And>tunnel. case tunnel (Some h) st1 of (copied, st2) \<Rightarrow>
        fst (run_relay (\<lambda>_ _. True) True tunnel demo_task demo_state) = (case copied of Inl e \<Rightarrow> Inl (RelayCopy e) | Inr n \<Rightarrow> Inr n) \<and>
        (\<forall>i. hm_get (relay_rates (snd (run_relay (\<lambda>_ _. True) True tunnel demo_task demo_state))) i =
          (if i = 2 then None else hm_get (relay_rates st2) i))"
    by blast
  show ?thesis
    using h run [of "\<lambda>h' st'. (if h' = Some h \<and> st' = st1 then Inr (1, 2) else Inl ConnectionLost, st')"] run [of idle_tunnel]
    by (intro exI [of _ h] exI [of _ st1]) (simp add: idle_tunnel_def)
qed

text \<open>
  The relay looks a service up by its name in all groups at once and stops at the first
  group that has it, so when two groups register the same name with different providers, the
  relay never connects anyone to one of the two providers under that name.
\<close>

theorem relay_serves_one_of_two_groups:
  assumes "registry_wf st" and "lookup_service st n svc = Some p" and "lookup_service st m svc = Some q"
    and "p \<noteq> q"
  shows "\<exists>x\<in>{p, q}. \<nexists>task. rt_service task = svc \<and> rt_provider task = x \<and>
    (\<exists>js ir default_bps remote r. relay_open js ir default_bps remote r st = Inr task)"
proof (cases "lookup_service_any_group st svc = Some p")
  case True
  with assms(4) show ?thesis
    by (intro bexI [of _ q]) (auto dest: relay_open_Inr)
next
  case False
  then show ?thesis
    by (intro bexI [of _ p]) (auto dest: relay_open_Inr)
qed

definition shared_name_state :: "nat server_state" where
  "shared_name_state = with_group ''b'' (group_exec (Registered ''ssh'' 4)) demo_state"

theorem relay_serves_one_of_two_groups_witness:
  "\<exists>x\<in>{7, 4 :: nat}. \<nexists>task. rt_service task = ''ssh'' \<and> rt_provider task = x \<and>
    (\<exists>js ir default_bps remote r. relay_open js ir default_bps remote r shared_name_state = Inr task)"
proof (rule relay_serves_one_of_two_groups)
  show "registry_wf shared_name_state"
    unfolding shared_name_state_def by (intro inv_intros demo_state_wf)
  have "lookup_service shared_name_state ''a'' ''ssh'' = Some 7"
    "lookup_service shared_name_state ''b'' ''ssh'' = Some 4"
    by (simp_all add: shared_name_state_def demo_state_def with_group_def group_exec_def
        register_service_def lookup_service_def group_of_def group_lookup_def)
  then show "lookup_service shared_name_state ''a'' ''ssh'' = Some 7"
    "lookup_service shared_name_state ''b'' ''ssh'' = Some 4"
    by simp_all
qed simp

end
