(* ===== verification/Identity.thy ===== *)
theory Identity
  imports Hashmap
begin

text \<open>
  \<^verbatim>\<open>crates/common/src/identity.rs\<close>: loading the secret key of a node, or generating one and storing
  it. A path is the list of its components. The disk maps paths to file contents and permission
  bits, and directories to permission bits. The generated key is an argument (the library's
  random 32 bytes), and so is the set of operations that fail, because any call of the file
  system may; \<open>create_mode\<close> is the mode that the process gives to new files.
\<close>

type_synonym path = "string list"

record stored_file =
  f_data :: bytes
  f_mode :: nat

record disk =
  d_files :: "(path, stored_file) hmap"
  d_dirs :: "(path, nat) hmap"

datatype disk_op =
    CreateDirs path
  | SetPermissions path
  | OpenFile path
  | ReadFile path
  | CreateFile path
  | WriteFile path
  | Rename path path

datatype identity_error =
    NoParent path
  | CreateDirFailed path
  | OpenFailed path
  | ReadFailedAt path
  | BadKeyLength nat
  | CreateTmpFailed path
  | WriteTmpFailed path
  | RenameFailed path
  | NoConfigDir

record identity_paths =
  ip_dir :: path
  ip_key_file :: path

definition decode_key :: "bytes \<Rightarrow> identity_error + bytes" where
  "decode_key bs = (if length bs = 32 then Inr bs else Inl (BadKeyLength (length bs)))"

definition parent :: "path \<Rightarrow> path option" where
  "parent p = (if p = [] then None else Some (butlast p))"

definition create_dir_all :: "path \<Rightarrow> disk \<Rightarrow> disk" where
  "create_dir_all p d =
     d\<lparr>d_dirs := fold (\<lambda>q ds. case hm_get ds q of None \<Rightarrow> hm_insert q 511 ds | Some _ \<Rightarrow> ds)
       (map (\<lambda>n. take n p) [1..<Suc (length p)]) (d_dirs d)\<rparr>"

text \<open>Mode \<open>0o700\<close> for the directory and \<open>0o600\<close> for the file; a failure is ignored.\<close>

definition restrict_dir :: "(disk_op \<Rightarrow> bool) \<Rightarrow> path \<Rightarrow> disk \<Rightarrow> disk" where
  "restrict_dir fails p d =
     (if fails (SetPermissions p) then d else d\<lparr>d_dirs := hm_insert p 448 (d_dirs d)\<rparr>)"

definition restrict_file :: "(disk_op \<Rightarrow> bool) \<Rightarrow> path \<Rightarrow> disk \<Rightarrow> disk" where
  "restrict_file fails p d =
     (if fails (SetPermissions p) then d
      else case hm_get (d_files d) p of
        None \<Rightarrow> d | Some f \<Rightarrow> d\<lparr>d_files := hm_insert p (f\<lparr>f_mode := 384\<rparr>) (d_files d)\<rparr>)"

definition path_present :: "path \<Rightarrow> disk \<Rightarrow> bool" where
  "path_present p d \<longleftrightarrow> hm_get (d_files d) p \<noteq> None \<or> hm_get (d_dirs d) p \<noteq> None"

definition put_file :: "path \<Rightarrow> bytes \<Rightarrow> nat \<Rightarrow> disk \<Rightarrow> disk" where
  "put_file p bs m d = d\<lparr>d_files := hm_insert p \<lparr>f_data = bs, f_mode = m\<rparr> (d_files d)\<rparr>"

definition move_file :: "path \<Rightarrow> path \<Rightarrow> disk \<Rightarrow> disk" where
  "move_file p q d =
     (case hm_get (d_files d) p of
        None \<Rightarrow> d | Some f \<Rightarrow> d\<lparr>d_files := hm_insert q f (hm_remove p (d_files d))\<rparr>)"

definition tmp_name :: "path \<Rightarrow> path" where
  "tmp_name dir = dir @ [''.identity.key.tmp'']"

definition load_or_generate_at ::
  "(disk_op \<Rightarrow> bool) \<Rightarrow> nat \<Rightarrow> bytes \<Rightarrow> path \<Rightarrow> disk \<Rightarrow> (identity_error + bytes \<times> identity_paths) \<times> disk" where
  "load_or_generate_at fails create_mode fresh key_file d =
     (case parent key_file of
        None \<Rightarrow> (Inl (NoParent key_file), d)
      | Some dir \<Rightarrow>
          if fails (CreateDirs dir) then (Inl (CreateDirFailed dir), d)
          else
            let d1 = restrict_dir fails dir (create_dir_all dir d);
                paths = \<lparr>ip_dir = dir, ip_key_file = key_file\<rparr>; tmp = tmp_name dir in
            if path_present key_file d1 then
              (if fails (OpenFile key_file) then (Inl (OpenFailed key_file), d1)
               else
                 case hm_get (d_files d1) key_file of
                   None \<Rightarrow> (Inl (ReadFailedAt key_file), d1)
                 | Some f \<Rightarrow>
                     if fails (ReadFile key_file) then (Inl (ReadFailedAt key_file), d1)
                     else (and_then (decode_key (f_data f)) (\<lambda>key. Inr (key, paths)), d1))
            else if fails (CreateFile tmp) then (Inl (CreateTmpFailed tmp), d1)
            else
              let d2 = put_file tmp [] create_mode d1 in
              if fails (WriteFile tmp) then (Inl (WriteTmpFailed tmp), d2)
              else
                let d3 = put_file tmp fresh create_mode d2 in
                if fails (Rename tmp key_file) then (Inl (RenameFailed key_file), d3)
                else (Inr (fresh, paths), restrict_file fails key_file (move_file tmp key_file d3)))"

definition default_dir :: "path option \<Rightarrow> identity_error + path" where
  "default_dir config_dir = and_then (ok_or config_dir NoConfigDir) (\<lambda>base. Inr (base @ [''meshly-core'']))"

definition load_or_generate ::
  "(disk_op \<Rightarrow> bool) \<Rightarrow> nat \<Rightarrow> bytes \<Rightarrow> path option \<Rightarrow> disk \<Rightarrow> (identity_error + bytes \<times> identity_paths) \<times> disk" where
  "load_or_generate fails create_mode fresh config_dir d =
     (case default_dir config_dir of
        Inl e \<Rightarrow> (Inl e, d)
      | Inr dir \<Rightarrow> load_or_generate_at fails create_mode fresh (dir @ [''identity.key'']) d)"

text \<open>\<open>load_identity\<close> of the server and \<open>load_identity_for_client\<close>: the configured path or the default.\<close>

definition load_identity ::
  "(disk_op \<Rightarrow> bool) \<Rightarrow> nat \<Rightarrow> bytes \<Rightarrow> (bytes \<Rightarrow> string) \<Rightarrow> path option \<Rightarrow> path option \<Rightarrow> disk
     \<Rightarrow> (identity_error + bytes \<times> string) \<times> disk" where
  "load_identity fails create_mode fresh public_text identity_path config_dir d =
     (case (case identity_path of
              Some p \<Rightarrow> load_or_generate_at fails create_mode fresh p d
            | None \<Rightarrow> load_or_generate fails create_mode fresh config_dir d) of
        (Inl e, d') \<Rightarrow> (Inl e, d')
      | (Inr (key, paths), d') \<Rightarrow> (Inr (key, public_text key), d'))"

section \<open>Facts\<close>

lemma create_dir_all_files [simp]: "d_files (create_dir_all p d) = d_files d"
  by (simp add: create_dir_all_def)

lemma restrict_dir_files [simp]: "d_files (restrict_dir fails p d) = d_files d"
  by (simp add: restrict_dir_def)

text \<open>After a successful call the key is in the file.\<close>

lemma load_or_generate_at_stores:
  assumes "load_or_generate_at fails m fresh key_file d = (Inr (key, paths), d')" and "length fresh = 32"
  shows "\<exists>f. hm_get (d_files d') key_file = Some f \<and> f_data f = key \<and> length key = 32 \<and> key_file \<noteq> []"
proof -
  obtain dir where dir: "parent key_file = Some dir"
    using assms(1) by (auto simp: load_or_generate_at_def split: option.splits)
  let ?d1 = "restrict_dir fails dir (create_dir_all dir d)"
  have kf: "key_file \<noteq> []" using dir by (auto simp: parent_def)
  show ?thesis
  proof (cases "path_present key_file ?d1")
    case True
    with assms(1) dir kf show ?thesis
      by (auto simp: load_or_generate_at_def Let_def decode_key_def split: if_splits option.splits)
  next
    case False
    with assms dir kf show ?thesis
      by (auto simp: load_or_generate_at_def Let_def put_file_def move_file_def restrict_file_def
          hm_get_insert hm_get_remove split: if_splits)
  qed
qed

section \<open>Property\<close>

text \<open>
  C36. A node keeps its identity: once \<open>load_or_generate_at\<close> has returned a key, every later call
  for the same path that can read the file returns the same key, whatever key it could have
  generated, and leaves the stored files as they are.
\<close>

theorem identity_is_stable:
  assumes "load_or_generate_at fails m fresh key_file d = (Inr (key, paths), d')" and "length fresh = 32"
    and "\<not> fails' (CreateDirs (butlast key_file))" and "\<not> fails' (OpenFile key_file)"
    and "\<not> fails' (ReadFile key_file)"
  shows "\<exists>d''. load_or_generate_at fails' m' fresh' key_file d' =
      (Inr (key, \<lparr>ip_dir = butlast key_file, ip_key_file = key_file\<rparr>), d'') \<and> d_files d'' = d_files d'"
proof -
  obtain f where "hm_get (d_files d') key_file = Some f" "f_data f = key" "length key = 32" "key_file \<noteq> []"
    using load_or_generate_at_stores [OF assms(1,2)] by blast
  then show ?thesis
    using assms(3-5)
    by (simp add: load_or_generate_at_def parent_def Let_def path_present_def decode_key_def)
qed

theorem identity_is_stable_witness:
  "\<exists>d' d''. load_or_generate_at (\<lambda>_. False) 420 (replicate 32 7) [''etc'', ''id''] \<lparr>d_files = [], d_dirs = []\<rparr> =
      (Inr (replicate 32 7, \<lparr>ip_dir = [''etc''], ip_key_file = [''etc'', ''id'']\<rparr>), d') \<and>
    load_or_generate_at (\<lambda>_. False) 420 (replicate 32 9) [''etc'', ''id''] d' =
      (Inr (replicate 32 7, \<lparr>ip_dir = [''etc''], ip_key_file = [''etc'', ''id'']\<rparr>), d'')"
proof -
  obtain d' where first: "load_or_generate_at (\<lambda>_. False) 420 (replicate 32 7) [''etc'', ''id''] \<lparr>d_files = [], d_dirs = []\<rparr> =
      (Inr (replicate 32 7, \<lparr>ip_dir = [''etc''], ip_key_file = [''etc'', ''id'']\<rparr>), d')"
    by (simp add: load_or_generate_at_def parent_def Let_def path_present_def create_dir_all_def
        restrict_dir_def)
  have l: "length (replicate 32 (7 :: u8)) = 32" by simp
  from identity_is_stable [OF first l, of "\<lambda>_. False" 420 "replicate 32 9"] first show ?thesis
    by auto
qed

end
