(* ===== verification/Environment.thy ===== *)
theory Environment
  imports Config Identity
begin

text \<open>
  What both programs find around them when they start, as one record: the configuration file and
  its parser, the file system of the validation, the working directory, the identity on disk,
  and whether the endpoint can be bound. The fields stand for libraries and the operating system.
  A relative path is resolved against the working directory.
\<close>

definition path_of :: "path \<Rightarrow> string \<Rightarrow> path" where
  "path_of cwd s =
     (let parts = filter (\<lambda>p. p \<noteq> [] \<and> p \<noteq> ''.'') (split_on (CHR ''/'') s)
      in if prefix ''/'' s then parts else cwd @ parts)"

record environment =
  en_fs :: fs_view
  en_read_to_string :: "string \<Rightarrow> string option"
  en_from_toml :: "string \<Rightarrow> root_config option"
  en_cwd :: path
  en_config_dir :: "path option"
  en_fails :: "disk_op \<Rightarrow> bool"
  en_create_mode :: nat
  en_fresh :: bytes
  en_public_text :: "bytes \<Rightarrow> string"
  en_bind :: bool
  en_version :: string

definition env_identity :: "environment \<Rightarrow> root_config \<Rightarrow> disk \<Rightarrow> (identity_error + bytes \<times> string) \<times> disk" where
  "env_identity en cfg d =
     load_identity (en_fails en) (en_create_mode en) (en_fresh en) (en_public_text en)
       (map_option (path_of (en_cwd en)) (identity_path (common cfg))) (en_config_dir en) d"

end
