(* ===== verification/Server_Main.thy ===== *)
theory Server_Main
  imports Relay Environment
begin

text \<open>
  \<^verbatim>\<open>crates/server/src/main.rs\<close>: how \<open>real_main\<close> builds the server's state from a configuration
  file, the task that sweeps dead sessions, and the status report. Binding the endpoint, the
  router, logging and the command line belong to libraries. A duration is an integer in the
  unit of the clock readings, seconds of the configuration being scaled by the parameter \<open>sec\<close>.
\<close>

section \<open>Start-up\<close>

definition parse_rate_overrides :: "'id id_codec \<Rightarrow> root_config \<Rightarrow> ('id \<times> u64) list" where
  "parse_rate_overrides ir cfg =
     (case relay cfg of
        Some r \<Rightarrow>
          List.map_filter (\<lambda>o'. map_option (\<lambda>i. (i, ro_bytes_per_sec o')) (parse_endpoint_id ir (ro_node_id o')))
            (rate_overrides r)
      | None \<Rightarrow> [])"

definition relay_enabled :: "root_config \<Rightarrow> bool" where
  "relay_enabled cfg = (case relay cfg of Some r \<Rightarrow> rc_enabled r | None \<Rightarrow> False)"

definition default_bps :: "root_config \<Rightarrow> u64" where
  "default_bps cfg = (case relay cfg of Some r \<Rightarrow> rc_bytes_per_sec r | None \<Rightarrow> 100 * 1024)"

record control_config =
  heartbeat_interval :: int
  heartbeat_timeout :: int

definition control_config_of :: "int \<Rightarrow> root_config \<Rightarrow> control_config" where
  "control_config_of sec cfg = \<lparr>
     heartbeat_interval = sec * int (unat (max (interval_secs (heartbeat cfg)) 1)),
     heartbeat_timeout = sec * int (unat (max (timeout_secs (heartbeat cfg)) 1))\<rparr>"

record 'id server =
  sv_state :: "'id server_state"
  sv_default_reply_bps :: "nat option"
  sv_control :: control_config

datatype start_error = LoadFailed config_error | NotAServer string | NoGroups

definition start_server ::
  "'id id_codec \<Rightarrow> fs_view \<Rightarrow> (string \<Rightarrow> string option) \<Rightarrow> (string \<Rightarrow> root_config option) \<Rightarrow> int \<Rightarrow> string
     \<Rightarrow> start_error + 'id server" where
  "start_server ir fs read_to_string from_toml sec path =
     (case load ir fs read_to_string from_toml path of
        Inl e \<Rightarrow> Inl (LoadFailed e)
      | Inr cfg \<Rightarrow>
          if \<not> is_server cfg then Inl (NotAServer path)
          else
            (case new_server_state (cfg_groups cfg) (parse_rate_overrides ir cfg) of
               None \<Rightarrow> Inl NoGroups
             | Some st \<Rightarrow>
                 if relay_enabled cfg
                 then (case atomic_new (default_bps cfg) st of
                         (h, st') \<Rightarrow> Inr \<lparr>sv_state = st', sv_default_reply_bps = Some h,
                           sv_control = control_config_of sec cfg\<rparr>)
                 else Inr \<lparr>sv_state = st, sv_default_reply_bps = None,
                        sv_control = control_config_of sec cfg\<rparr>))"

section \<open>The sweeper\<close>

definition dead_sessions :: "int \<Rightarrow> 'id group \<Rightarrow> 'id list" where
  "dead_sessions cutoff g = map fst (filter (\<lambda>e. last_heartbeat (snd e) < cutoff) (sessions g))"

definition sweep_group :: "int \<Rightarrow> 'id group \<Rightarrow> 'id group" where
  "sweep_group cutoff g = fold drop_session (dead_sessions cutoff g) g"

definition sweep_dead_sessions :: "int \<Rightarrow> int \<Rightarrow> 'id server_state \<Rightarrow> 'id server_state" where
  "sweep_dead_sessions now timeout st =
     (let cutoff = now - timeout in
      fold (\<lambda>(group_name, _, _). with_group group_name (sweep_group cutoff)) (dump_services st) st)"

section \<open>Status\<close>

record 'id status_report =
  st_node_id :: string
  st_session_count :: nat
  st_services :: "(string \<times> string \<times> string) list"
  st_relay_streams :: "(u64 \<times> u64) list"
  st_overrides :: "(string \<times> u64) list"

definition print_status :: "'id id_codec \<Rightarrow> 'id server_state \<Rightarrow> string \<Rightarrow> 'id status_report" where
  "print_status ir st node_id = \<lparr>
     st_node_id = node_id,
     st_session_count = session_count st,
     st_services = map (\<lambda>(g, s, p). (g, s, id_to_string ir p)) (dump_services st),
     st_relay_streams = relay_rates_snapshot st,
     st_overrides = map (\<lambda>(i, bps). (id_to_string ir i, bps)) (relay_rate_overrides_snapshot st)\<rparr>"

text \<open>
  \<open>real_main\<close>: the configuration, the identity, the state; then either the report of \<open>--status\<close>
  or the running server.
\<close>

datatype 'id server_run = Reported "'id status_report" | Running string "'id server"

datatype run_error = StartFailed start_error | IdentityFailed identity_error | EndpointBindFailed

definition real_main ::
  "'id id_codec \<Rightarrow> environment \<Rightarrow> int \<Rightarrow> string \<Rightarrow> bool \<Rightarrow> disk \<Rightarrow> (run_error + 'id server_run) \<times> disk" where
  "real_main ir en sec config status d =
     (case load ir (en_fs en) (en_read_to_string en) (en_from_toml en) config of
        Inl e \<Rightarrow> (Inl (StartFailed (LoadFailed e)), d)
      | Inr cfg \<Rightarrow>
          if \<not> is_server cfg then (Inl (StartFailed (NotAServer config)), d)
          else
            (case env_identity en cfg d of
               (Inl e, d') \<Rightarrow> (Inl (IdentityFailed e), d')
             | (Inr (key, node_id), d') \<Rightarrow>
                 ((case start_server ir (en_fs en) (en_read_to_string en) (en_from_toml en) sec config of
                     Inl e \<Rightarrow> Inl (StartFailed e)
                   | Inr sv \<Rightarrow>
                       if status then Inr (Reported (print_status ir (sv_state sv) node_id))
                       else if \<not> en_bind en then Inl EndpointBindFailed
                       else Inr (Running node_id sv)), d')))"

text \<open>The exit code of a program that has ended; a running server has none.\<close>

definition server_exit_code :: "run_error + 'id server_run \<Rightarrow> nat option" where
  "server_exit_code r =
     (case r of Inl _ \<Rightarrow> Some 1 | Inr (Reported rep) \<Rightarrow> Some 0 | Inr (Running node_id sv) \<Rightarrow> None)"

section \<open>Facts about the sweeper\<close>

lemma sessions_drop_all: "sessions (fold drop_session ids g) = fold hm_remove ids (sessions g)"
  by (induction ids arbitrary: g) (simp_all add: drop_session_def Let_def)

lemma group_wf_drop_all: "group_wf g \<Longrightarrow> group_wf (fold drop_session ids g)"
  by (induction ids arbitrary: g) (auto intro: group_wf_drop)

lemma group_lookup_drop_all:
  "group_wf g \<Longrightarrow> group_lookup (fold drop_session ids g) s =
     (case group_lookup g s of Some p \<Rightarrow> if p \<in> set ids then None else Some p | None \<Rightarrow> None)"
  by (induction ids arbitrary: g) (auto simp: group_lookup_drop group_wf_drop split: option.splits)

lemma g_name_drop_all [simp]:
  "g_name (fold drop_session ids g) = g_name g" "g_token (fold drop_session ids g) = g_token g"
  by (induction ids arbitrary: g) simp_all

definition expired :: "int \<Rightarrow> 'id group \<Rightarrow> 'id \<Rightarrow> bool" where
  "expired cutoff g c \<longleftrightarrow> (case hm_get (sessions g) c of Some s \<Rightarrow> last_heartbeat s < cutoff | None \<Rightarrow> False)"

lemma dead_sessions_iff: "group_wf g \<Longrightarrow> c \<in> set (dead_sessions cutoff g) \<longleftrightarrow> expired cutoff g c"
proof -
  assume "group_wf g"
  then have "(c, s) \<in> set (sessions g) \<longleftrightarrow> hm_get (sessions g) c = Some s" for s
    by (simp add: group_wf_def hm_entries_iff)
  then show ?thesis
    by (auto simp: dead_sessions_def expired_def image_iff split: option.splits)
qed

lemma group_wf_sweep: "group_wf g \<Longrightarrow> group_wf (sweep_group cutoff g)"
  by (simp add: sweep_group_def group_wf_drop_all)

lemma sessions_sweep:
  assumes "group_wf g"
  shows "hm_get (sessions (sweep_group cutoff g)) c =
    (if expired cutoff g c then None else hm_get (sessions g) c)"
proof -
  have "hm_wf (sessions g)" using assms by (simp add: group_wf_def)
  then show ?thesis
    using dead_sessions_iff [OF assms, of c cutoff]
    by (simp add: sweep_group_def sessions_drop_all hm.get_remove_all)
qed

lemma group_lookup_sweep:
  assumes "group_wf g"
  shows "group_lookup (sweep_group cutoff g) s = Some p \<longleftrightarrow> group_lookup g s = Some p \<and> \<not> expired cutoff g p"
  using dead_sessions_iff [OF assms]
  by (auto simp: sweep_group_def group_lookup_drop_all [OF assms] split: option.splits)

lemma sweep_group_idem:
  assumes "group_wf g"
  shows "sweep_group cutoff (sweep_group cutoff g) = sweep_group cutoff g"
proof -
  have "\<not> expired cutoff (sweep_group cutoff g) c" for c
    by (simp add: expired_def sessions_sweep [OF assms] split: option.splits)
  then have "c \<notin> set (dead_sessions cutoff (sweep_group cutoff g))" for c
    by (simp add: dead_sessions_iff [OF group_wf_sweep [OF assms]])
  then have "dead_sessions cutoff (sweep_group cutoff g) = []"
    using last_in_set by blast
  then show ?thesis
    by (simp add: sweep_group_def [of cutoff "sweep_group cutoff g"])
qed

lemma registry_wf_sweep_group [inv_intros]: "registry_wf st \<Longrightarrow> registry_wf (with_group n (sweep_group c) st)"
  by (rule registry_wf_with_group) (simp_all add: group_wf_sweep, simp add: sweep_group_def)

lemma sweep_fold:
  assumes "registry_wf st"
  shows "registry_wf (fold (\<lambda>(n, _, _). with_group n (sweep_group c)) es st) \<and>
    group_of (fold (\<lambda>(n, _, _). with_group n (sweep_group c)) es st) m =
      (if m \<in> fst ` set es then map_option (sweep_group c) (group_of st m) else group_of st m)"
  using assms
proof (induction es arbitrary: st)
  case Nil
  then show ?case by simp
next
  case (Cons e es)
  obtain n s p where e: "e = (n, s, p)" using prod_cases3 by blast
  let ?st = "with_group n (sweep_group c) st"
  have wf: "registry_wf ?st" by (intro inv_intros Cons.prems)
  have twice: "map_option (sweep_group c) (group_of ?st m) = map_option (sweep_group c) (group_of st m)"
    using registry_wf_group [OF Cons.prems, of m]
    by (auto simp: group_of_with_group sweep_group_idem option.map_comp comp_def split: option.splits)
      (cases "group_of st m"; auto simp: sweep_group_idem)
  show ?case
    using Cons.IH [OF wf] e twice by (auto simp: group_of_with_group)
qed

lemma registry_wf_sweep [inv_intros]: "registry_wf st \<Longrightarrow> registry_wf (sweep_dead_sessions now timeout st)"
  using sweep_fold [of st "now - timeout" "dump_services st"] by (simp add: sweep_dead_sessions_def Let_def)

lemma dumped_group_iff:
  assumes "registry_wf st" and "group_of st n = Some g"
  shows "n \<in> fst ` set (dump_services st) \<longleftrightarrow> services g \<noteq> []"
proof -
  have "n \<in> fst ` set (dump_services st) \<longleftrightarrow> (\<exists>s p. lookup_service st n s = Some p)"
    using dump_services_iff [OF assms(1)] by (force simp: image_iff)
  also have "\<dots> \<longleftrightarrow> (\<exists>s. hm_get (services g) s \<noteq> None)"
    by (auto simp: lookup_service_def assms(2) group_lookup_def)
  also have "\<dots> \<longleftrightarrow> services g \<noteq> []"
    by (auto simp: hm_get_None_iff hm_keys_def)
  finally show ?thesis .
qed

section \<open>Facts about start-up\<close>

lemma config_overrides_relay:
  "parse_rate_overrides ir cfg =
     List.map_filter (\<lambda>o'. map_option (\<lambda>i. (i, ro_bytes_per_sec o')) (parse_endpoint_id ir (ro_node_id o')))
       (config_overrides cfg)"
  by (simp add: parse_rate_overrides_def config_overrides_def map_filter_def split: option.splits)

lemma parse_rate_overrides_valid:
  assumes "server_config_ok ir cfg"
  shows "distinct (map fst (parse_rate_overrides ir cfg))"
    and "o' \<in> set (config_overrides cfg) \<Longrightarrow>
      \<exists>i. parse_endpoint_id ir (ro_node_id o') = Some i \<and> (i, ro_bytes_per_sec o') \<in> set (parse_rate_overrides ir cfg)"
proof -
  let ?p = "\<lambda>o'. parse_endpoint_id ir (ro_node_id o')"
  have none: "None \<notin> set (map ?p (config_overrides cfg))" and d: "distinct (map ?p (config_overrides cfg))"
    using assms by (simp_all add: server_config_ok_def Let_def)
  have all: "\<forall>o'\<in>set (config_overrides cfg). ?p o' \<noteq> None"
  proof (intro ballI notI)
    fix o'
    assume "o' \<in> set (config_overrides cfg)" "?p o' = None"
    then have "None \<in> set (map ?p (config_overrides cfg))"
      unfolding set_map by (intro image_eqI [of None ?p o']) simp_all
    with none show False by contradiction
  qed
  have eq: "parse_rate_overrides ir cfg =
      map (\<lambda>o'. (the (?p o'), ro_bytes_per_sec o')) (config_overrides cfg)"
    unfolding config_overrides_relay using all
    by (auto simp: map_filter_def option.map_sel filter_id_conv)
  have "map Some (map fst (parse_rate_overrides ir cfg)) = map ?p (config_overrides cfg)"
    using all by (auto simp: eq)
  with d show "distinct (map fst (parse_rate_overrides ir cfg))"
    by (metis distinct_map)
  show "\<exists>i. ?p o' = Some i \<and> (i, ro_bytes_per_sec o') \<in> set (parse_rate_overrides ir cfg)"
    if mem: "o' \<in> set (config_overrides cfg)"
  proof -
    obtain i where i: "?p o' = Some i"
      using bspec [OF all mem] by auto
    have "(the (?p o'), ro_bytes_per_sec o') \<in> set (parse_rate_overrides ir cfg)"
      unfolding eq using mem by simp
    with i show ?thesis by simp
  qed
qed

lemma overrides_of_new:
  assumes "new_server_state gs ovs = Some st" and "distinct (map fst ovs)"
  shows "lookup_relay_rate_override st i = Some b \<longleftrightarrow> (i, b) \<in> set ovs"
proof -
  have "lookup_relay_rate_override st i = hm_get (fold (\<lambda>(k, v). hm_insert k v) ovs hm_empty) i"
    using assms(1) by (auto simp: lookup_relay_rate_override_def new_server_state_def Let_def split: if_splits)
  also have "\<dots> = map_of ovs i"
    using hm.get_insert_all_distinct [OF hm.wf_empty assms(2), of i]
    by (simp add: hm.get_empty split: option.splits)
  finally show ?thesis
    using assms(2) by simp
qed

text \<open>The overrides in force are the rows of the configuration.\<close>

lemma overrides_configured:
  assumes "server_config_ok ir cfg" and "new_server_state gs (parse_rate_overrides ir cfg) = Some st"
  shows "lookup_relay_rate_override st i = Some b \<longleftrightarrow>
      (\<exists>r. relay cfg = Some r \<and>
        (\<exists>o'\<in>set (rate_overrides r). parse_endpoint_id ir (ro_node_id o') = Some i \<and> ro_bytes_per_sec o' = b))"
    and "relay cfg = Some r \<Longrightarrow> o' \<in> set (rate_overrides r) \<Longrightarrow> \<exists>i. parse_endpoint_id ir (ro_node_id o') = Some i"
proof -
  have "(i, b) \<in> set (parse_rate_overrides ir cfg) \<longleftrightarrow>
      (\<exists>o'\<in>set (config_overrides cfg). parse_endpoint_id ir (ro_node_id o') = Some i \<and> ro_bytes_per_sec o' = b)"
    unfolding config_overrides_relay map_filter_def by force
  with overrides_of_new [OF assms(2) parse_rate_overrides_valid(1) [OF assms(1)], of i b]
  show "lookup_relay_rate_override st i = Some b \<longleftrightarrow>
      (\<exists>r. relay cfg = Some r \<and>
        (\<exists>o'\<in>set (rate_overrides r). parse_endpoint_id ir (ro_node_id o') = Some i \<and> ro_bytes_per_sec o' = b))"
    by (cases "relay cfg") (simp_all add: config_overrides_def)
  show "\<exists>i. parse_endpoint_id ir (ro_node_id o') = Some i" if "relay cfg = Some r" "o' \<in> set (rate_overrides r)"
    using parse_rate_overrides_valid(2) [OF assms(1), of o'] that by (auto simp: config_overrides_def)
qed

lemma new_server_state_Some: "gs \<noteq> [] \<Longrightarrow> \<exists>st. new_server_state gs ovs = Some st"
  using groups_of_new [of gs "[]"] by (auto simp: new_server_state_def Let_def hm_empty_def)

lemma new_groups_empty:
  assumes "\<forall>(k, g)\<in>set m. sessions g = [] \<and> services g = []"
  shows "\<forall>(k, g)\<in>set (fold (\<lambda>(k, v). hm_insert k v) (map (\<lambda>g. (gc_name g, new_group g)) gs) m).
    sessions g = [] \<and> services g = []"
  using assms
proof (induction gs arbitrary: m)
  case Nil
  then show ?case by simp
next
  case (Cons g gs)
  have "\<forall>(k, x)\<in>set (hm_insert (gc_name g) (new_group g) m). sessions x = [] \<and> services x = []"
    using Cons.prems by (auto simp: new_group_def hm_empty_def dest!: hm_insert_entryD)
  from Cons.IH [OF this] show ?case by simp
qed

lemma new_groups_emptyD:
  "(k, g) \<in> set (fold (\<lambda>(k, v). hm_insert k v) (map (\<lambda>g. (gc_name g, new_group g)) gs) []) \<Longrightarrow>
     sessions g = [] \<and> services g = []"
  using new_groups_empty [of "[]" gs] by fastforce

lemma start_server_empty:
  assumes "start_server ir fs read_to_string from_toml sec path = Inr sv"
  shows "session_count (sv_state sv) = 0" and "dump_services (sv_state sv) = []"
    and "relay_rates_snapshot (sv_state sv) = []"
proof -
  have "\<forall>(k, g)\<in>set (groups (sv_state sv)). sessions g = [] \<and> services g = []"
    and "relay_rates (sv_state sv) = []"
    using assms
    by (auto simp: start_server_def new_server_state_def atomic_new_def hm_empty_def Let_def
        split: sum.splits if_splits dest: new_groups_emptyD)
  then show "session_count (sv_state sv) = 0" "dump_services (sv_state sv) = []"
    "relay_rates_snapshot (sv_state sv) = []"
    by (auto simp: session_count_def dump_services_def relay_rates_snapshot_def)
qed

lemma secs_at_least_one:
  "heartbeat_interval (control_config_of sec cfg) = sec * max (int (unat (interval_secs (heartbeat cfg)))) 1"
  "heartbeat_timeout (control_config_of sec cfg) = sec * max (int (unat (timeout_secs (heartbeat cfg)))) 1"
proof -
  have "unat (max x 1) = max (unat x) 1" for x :: u64
    by (auto simp: max_def word_le_nat_alt)
  then show "heartbeat_interval (control_config_of sec cfg) = sec * max (int (unat (interval_secs (heartbeat cfg)))) 1"
    "heartbeat_timeout (control_config_of sec cfg) = sec * max (int (unat (timeout_secs (heartbeat cfg)))) 1"
    unfolding control_config_of_def by (simp_all only: control_config.simps of_nat_max of_nat_1)
qed

lemma option_None_if: "(\<And>y. o' \<noteq> Some y) \<Longrightarrow> o' = None"
  by (cases o') auto

section \<open>Properties\<close>

text \<open>
  C18. One sweep drops exactly the sessions whose last heartbeat is older than the timeout and
  the services of those clients, in every group that has a service. A group without services
  is not visited: its dead sessions stay.
\<close>

theorem sweep_exact:
  assumes "registry_wf st" and "group_of st n = Some g"
  shows "let st' = sweep_dead_sessions now timeout st; cutoff = now - timeout in
    registry_wf st' \<and>
    (if services g = [] then group_of st' n = Some g
     else \<exists>g'. group_of st' n = Some g' \<and>
       (\<forall>c. has_session g' c \<longleftrightarrow> has_session g c \<and> \<not> expired cutoff g c) \<and>
       (\<forall>s p. group_lookup g' s = Some p \<longleftrightarrow> group_lookup g s = Some p \<and> \<not> expired cutoff g p))"
proof -
  have wf: "group_wf g"
    using registry_wf_group [OF assms] by simp
  show ?thesis
    using sweep_fold [OF assms(1), of "now - timeout" "dump_services st" n] dumped_group_iff [OF assms]
      group_lookup_sweep [OF wf]
    by (auto simp: Let_def sweep_dead_sessions_def assms(2) has_session_def sessions_sweep [OF wf])
qed

theorem sweep_exact_witness:
  "lookup_service demo_state ''a'' ''ssh'' = Some 7 \<and>
   lookup_service (sweep_dead_sessions 100 90 demo_state) ''a'' ''ssh'' = None"
proof -
  have e: "expired (100 - 90) \<lparr>g_name = ''a'', g_token = ''t1'', sessions = [(7, \<lparr>last_heartbeat = 5\<rparr>)],
      services = [(''ssh'', \<lparr>provider_id = 7\<rparr>)]\<rparr> (7 :: nat)"
    by (simp add: expired_def)
  have "lookup_service demo_state ''a'' ''ssh'' = Some 7"
    by (simp add: lookup_service_def demo_state_group_a group_lookup_def)
  with sweep_exact [OF demo_state_wf demo_state_group_a, of 100 90] e show ?thesis
    by (auto simp: Let_def lookup_service_def group_lookup_def)
qed

definition relaying_config :: root_config where
  "relaying_config = two_group_config\<lparr>relay := Some \<lparr>rc_enabled = True, rc_bytes_per_sec = 5000,
     rate_overrides = [\<lparr>ro_node_id = ''ii'', ro_bytes_per_sec = 70\<rparr>]\<rparr>\<rparr>"

text \<open>
  C35. A server whose configuration loads starts, and its state is the configured one. It has
  exactly the configured groups, with their tokens and nothing registered; every row of
  \<open>[[relay.rate_override]]\<close> names an id, and the overrides in force are exactly those rows; there is
  a default rate cell exactly when there is a \<open>[relay]\<close> table with its switch on, and it holds the
  rate of that table; the heartbeat interval and timeout are the configured ones, at least a second.
\<close>

theorem start_server_complete:
  assumes "load ir fs read_to_string from_toml path = Inr cfg" and "is_server cfg"
  shows "\<exists>sv. start_server ir fs read_to_string from_toml sec path = Inr sv \<and>
    registry_wf (sv_state sv) \<and>
    (\<forall>n g. group_of (sv_state sv) n = Some g \<longleftrightarrow> (\<exists>gc\<in>set (cfg_groups cfg). gc_name gc = n \<and>
       g = \<lparr>g_name = gc_name gc, g_token = gc_group_token gc, sessions = [], services = []\<rparr>)) \<and>
    (\<forall>r. relay cfg = Some r \<longrightarrow> (\<forall>o'\<in>set (rate_overrides r). \<exists>i. parse_endpoint_id ir (ro_node_id o') = Some i)) \<and>
    (\<forall>i bps. lookup_relay_rate_override (sv_state sv) i = Some bps \<longleftrightarrow>
       (\<exists>r. relay cfg = Some r \<and>
         (\<exists>o'\<in>set (rate_overrides r). parse_endpoint_id ir (ro_node_id o') = Some i \<and> ro_bytes_per_sec o' = bps))) \<and>
    map_option (atomic_load (sv_state sv)) (sv_default_reply_bps sv) =
      (case relay cfg of None \<Rightarrow> None | Some r \<Rightarrow> if rc_enabled r then Some (rc_bytes_per_sec r) else None) \<and>
    relay_rates_snapshot (sv_state sv) = [] \<and>
    heartbeat_interval (sv_control sv) = sec * max (int (unat (interval_secs (heartbeat cfg)))) 1 \<and>
    heartbeat_timeout (sv_control sv) = sec * max (int (unat (timeout_secs (heartbeat cfg)))) 1"
proof -
  have ok: "server_config_ok ir cfg"
    using assms by (auto simp: load_def and_then_Inr_iff map_error_ok_iff validate_ok_iff)
  obtain st where st: "new_server_state (cfg_groups cfg) (parse_rate_overrides ir cfg) = Some st"
    using new_server_state_Some assms(2) by (auto simp: is_server_def)
  have names: "distinct (map gc_name (cfg_groups cfg))"
    using ok by (simp add: server_config_ok_def)
  have wf: "registry_wf st" "registry_wf (st\<lparr>atomics := atomics st @ [b]\<rparr>)" for b
    using registry_wf_new [OF st] by (auto simp: registry_wf_def less_Suc_eq)
  note state = group_of_new [OF st names] overrides_configured [OF ok st]
  define sv where "sv = (if relay_enabled cfg
    then \<lparr>sv_state = st\<lparr>atomics := atomics st @ [default_bps cfg]\<rparr>, sv_default_reply_bps = Some (length (atomics st)),
           sv_control = control_config_of sec cfg\<rparr>
    else \<lparr>sv_state = st, sv_default_reply_bps = None, sv_control = control_config_of sec cfg\<rparr>)"
  have start: "start_server ir fs read_to_string from_toml sec path = Inr sv"
    using assms st by (simp add: sv_def start_server_def atomic_new_def)
  have parts: "registry_wf (sv_state sv)" "group_of (sv_state sv) = group_of st"
    "lookup_relay_rate_override (sv_state sv) = lookup_relay_rate_override st"
    "sv_control sv = control_config_of sec cfg"
    "map_option (atomic_load (sv_state sv)) (sv_default_reply_bps sv) =
      (case relay cfg of None \<Rightarrow> None | Some r \<Rightarrow> if rc_enabled r then Some (rc_bytes_per_sec r) else None)"
    using wf by (auto simp: sv_def fun_eq_iff group_of_def lookup_relay_rate_override_def atomic_load_def
        relay_enabled_def default_bps_def split: option.splits)
  show ?thesis
    using state by (intro exI [of _ sv])
      (simp add: start parts start_server_empty(3) [OF start] new_group_def hm_empty_def secs_at_least_one)
qed

theorem start_server_complete_witness:
  "\<exists>sv. start_server unary_ids \<lparr>path_exists = \<lambda>_. False, path_is_dir = \<lambda>_. False\<rparr> (\<lambda>_. Some [])
     (\<lambda>_. Some relaying_config) 1 ''server.toml'' = Inr sv \<and>
     (\<exists>g. group_of (sv_state sv) ''b'' = Some g \<and> g_token g = ''t'' \<and> sessions g = []) \<and>
     lookup_relay_rate_override (sv_state sv) 2 = Some 70 \<and>
     lookup_relay_rate_override (sv_state sv) 3 = None \<and>
     map_option (atomic_load (sv_state sv)) (sv_default_reply_bps sv) = Some 5000"
proof -
  have s: "is_server relaying_config"
    by (simp add: is_server_def relaying_config_def two_group_config_def)
  have l: "load unary_ids \<lparr>path_exists = \<lambda>_. False, path_is_dir = \<lambda>_. False\<rparr> (\<lambda>_. Some [])
     (\<lambda>_. Some relaying_config) ''server.toml'' = Inr relaying_config"
    by (simp add: load_def validate_def validate_server_def has_client_fields_def root_config_default_def
        config_overrides_def logging_config_default_def default_log_level_def log_levels_def
        relaying_config_def two_group_config_def parse_endpoint_id_def unary_ids_def)
  obtain sv where sv: "start_server unary_ids \<lparr>path_exists = \<lambda>_. False, path_is_dir = \<lambda>_. False\<rparr> (\<lambda>_. Some [])
     (\<lambda>_. Some relaying_config) 1 ''server.toml'' = Inr sv"
    and g: "\<And>n g. group_of (sv_state sv) n = Some g \<longleftrightarrow> (\<exists>gc\<in>set (cfg_groups relaying_config). gc_name gc = n \<and>
       g = \<lparr>g_name = gc_name gc, g_token = gc_group_token gc, sessions = [], services = []\<rparr>)"
    and ov: "\<And>i bps. lookup_relay_rate_override (sv_state sv) i = Some bps \<longleftrightarrow>
       (\<exists>r. relay relaying_config = Some r \<and> (\<exists>o'\<in>set (rate_overrides r).
          parse_endpoint_id unary_ids (ro_node_id o') = Some i \<and> ro_bytes_per_sec o' = bps))"
    and d: "map_option (atomic_load (sv_state sv)) (sv_default_reply_bps sv) =
      (case relay relaying_config of None \<Rightarrow> None | Some r \<Rightarrow> if rc_enabled r then Some (rc_bytes_per_sec r) else None)"
    using start_server_complete [OF l s, of 1] by blast
  have "lookup_relay_rate_override (sv_state sv) 2 = Some 70" "\<And>y. lookup_relay_rate_override (sv_state sv) 3 \<noteq> Some y"
    unfolding ov by (simp_all add: relaying_config_def parse_endpoint_id_def unary_ids_def)
  moreover have "\<exists>g. group_of (sv_state sv) ''b'' = Some g \<and> g_token g = ''t'' \<and> sessions g = []"
    unfolding g by (simp add: relaying_config_def two_group_config_def)
  ultimately show ?thesis
    using sv d by (intro exI [of _ sv]) (simp add: option_None_if relaying_config_def)
qed

text \<open>
  The server's \<open>--status\<close> never shows a running server: it builds a registry of its own from
  the configuration file and reports that one, so the report has no session, no service and no
  relay stream, whatever the server that is running holds.
\<close>

theorem status_reports_fresh_registry:
  assumes "real_main ir en sec config True d = (Inr out, d')"
  shows "\<exists>rep. out = Reported rep \<and> st_session_count rep = 0 \<and> st_services rep = [] \<and> st_relay_streams rep = []"
proof -
  obtain sv node_id where "start_server ir (en_fs en) (en_read_to_string en) (en_from_toml en) sec config = Inr sv"
    and "out = Reported (print_status ir (sv_state sv) node_id)"
    using assms by (auto simp: real_main_def split: sum.splits if_splits prod.splits)
  then show ?thesis
    using start_server_empty [of ir _ _ _ sec config sv] by (auto simp: print_status_def)
qed

definition demo_server_env :: environment where
  "demo_server_env = \<lparr>en_fs = \<lparr>path_exists = \<lambda>_. False, path_is_dir = \<lambda>_. False\<rparr>,
     en_read_to_string = (\<lambda>_. Some []), en_from_toml = (\<lambda>_. Some two_group_config), en_cwd = [],
     en_config_dir = Some [''home''], en_fails = (\<lambda>_. False), en_create_mode = 420,
     en_fresh = replicate 32 1, en_public_text = (\<lambda>_. ''me''), en_bind = True, en_version = ''1''\<rparr>"

theorem status_reports_fresh_registry_witness:
  "\<exists>rep d'. real_main unary_ids demo_server_env 1 ''server.toml'' True \<lparr>d_files = [], d_dirs = []\<rparr> = (Inr (Reported rep), d')
     \<and> st_services rep = []"
proof -
  let ?d = "\<lparr>d_files = [], d_dirs = []\<rparr>"
  let ?run = "real_main unary_ids demo_server_env 1 ''server.toml'' True ?d"
  have "case fst ?run of Inr _ \<Rightarrow> True | Inl _ \<Rightarrow> False"
    by code_simp
  then obtain out d' where run: "?run = (Inr out, d')"
    by (cases ?run) (auto split: sum.splits)
  from status_reports_fresh_registry [OF run] run show ?thesis by blast
qed

end
