(* ===== verification/Server_System.thy ===== *)
theory Server_System
  imports Server_Main
begin

text \<open>
  The server as a whole: any number of control connections served concurrently, the sweeper and
  the relay tasks, all on one registry. A step is one atomic piece of work of one of them: the
  handling of one stream of a connection, the end of a connection, one sweep, one change of the
  relay table. The steps interleave in any order.

  \<open>c_token\<close> records the token that a connection presented in its \<open>Hello\<close>; the code does not keep
  it, the statements need it. Within a step, \<open>drop_session\<close> and the sweep are atomic; in the code
  another task may run between the removal of two services.
\<close>

datatype phase = AwaitHello | Serving string | Ended

record 'id conn =
  c_remote :: 'id
  c_phase :: phase
  c_token :: "string option"

record 'id system =
  sy_state :: "'id server_state"
  sy_conns :: "'id conn list"

definition presented :: "json_codec \<Rightarrow> bi_stream \<Rightarrow> string option" where
  "presented js bs =
     (case fst (read_from js (bs_reader bs)) of Inr (Hello h) \<Rightarrow> Some (group_token h) | _ \<Rightarrow> None)"

definition phase_after_hello :: "hello_outcome \<Rightarrow> phase" where
  "phase_after_hello out = (case out of Open n \<Rightarrow> Serving n | _ \<Rightarrow> Ended)"

text \<open>What follows the loop body: the next stream, or what \<open>run_session\<close> does after its loop.\<close>

definition after_stream :: "string \<Rightarrow> 'id \<Rightarrow> flow \<Rightarrow> 'id server_state \<Rightarrow> phase \<times> 'id server_state" where
  "after_stream n remote fl st =
     (case fl of
        Continue \<Rightarrow> (Serving n, st)
      | _ \<Rightarrow> (Ended, snd (end_session n remote fl st)))"

text \<open>The peer is gone: \<open>accept_bi\<close> fails, which breaks the loop of connection \<open>i\<close>.\<close>

definition close_conn :: "nat \<Rightarrow> string \<Rightarrow> 'id system \<Rightarrow> 'id system" where
  "close_conn i n sy =
     (let c = sy_conns sy ! i in
      \<lparr>sy_state = snd (end_session n (c_remote c) Break (sy_state sy)),
       sy_conns = (sy_conns sy)[i := c\<lparr>c_phase := Ended\<rparr>]\<rparr>)"

inductive sys_step :: "json_codec \<Rightarrow> 'id id_codec \<Rightarrow> 'id system \<Rightarrow> 'id system \<Rightarrow> bool" for js ir where
  accept: "sys_step js ir sy (sy\<lparr>sy_conns := sy_conns sy @ [\<lparr>c_remote = r, c_phase = AwaitHello, c_token = None\<rparr>]\<rparr>)"
| greet: "\<lbrakk>i < length (sy_conns sy); c = sy_conns sy ! i; c_phase c = AwaitHello;
    hello_step js (c_remote c) sid bs (sy_state sy) = (out, st', w)\<rbrakk> \<Longrightarrow>
    sys_step js ir sy \<lparr>sy_state = st',
      sy_conns = (sy_conns sy)[i := c\<lparr>c_phase := phase_after_hello out, c_token := presented js bs\<rparr>]\<rparr>"
| serve: "\<lbrakk>i < length (sy_conns sy); c = sy_conns sy ! i; c_phase c = Serving n;
    serve_stream js ir n (c_remote c) bs (sy_state sy) = (fl, st', w);
    after_stream n (c_remote c) fl st' = (ph, st'')\<rbrakk> \<Longrightarrow>
    sys_step js ir sy \<lparr>sy_state = st'', sy_conns = (sy_conns sy)[i := c\<lparr>c_phase := ph\<rparr>]\<rparr>"
| close: "\<lbrakk>i < length (sy_conns sy); c_phase (sy_conns sy ! i) = Serving n\<rbrakk> \<Longrightarrow>
    sys_step js ir sy (close_conn i n sy)"
| sweep: "sys_step js ir sy (sy\<lparr>sy_state := sweep_dead_sessions now timeout (sy_state sy)\<rparr>)"
| relay_table: "\<lbrakk>registry_step (sy_state sy) st'; groups st' = groups (sy_state sy)\<rbrakk> \<Longrightarrow>
    sys_step js ir sy (sy\<lparr>sy_state := st'\<rparr>)"

definition initial_system :: "'id server_state \<Rightarrow> 'id system" where
  "initial_system st = \<lparr>sy_state = st, sy_conns = []\<rparr>"

section \<open>Who may be in the registry\<close>

text \<open>A connection that presented \<open>tok\<close> may act in group \<open>n\<close>.\<close>

definition admitted :: "'id server_state \<Rightarrow> string \<Rightarrow> string option \<Rightarrow> bool" where
  "admitted st n tok \<longleftrightarrow> (\<exists>g. group_of st n = Some g \<and> tok = Some (g_token g))"

text \<open>Some connection of client \<open>p\<close> presented the token of group \<open>n\<close>.\<close>

definition vouched :: "'id system \<Rightarrow> string \<Rightarrow> 'id \<Rightarrow> bool" where
  "vouched sy n p \<longleftrightarrow>
     (\<exists>c\<in>set (sy_conns sy). c_remote c = p \<and> admitted (sy_state sy) n (c_token c))"

definition sys_inv :: "'id system \<Rightarrow> bool" where
  "sys_inv sy \<longleftrightarrow>
     registry_wf (sy_state sy) \<and>
     (\<forall>n s p. lookup_service (sy_state sy) n s = Some p \<longrightarrow> vouched sy n p) \<and>
     (\<forall>n p. session_in (sy_state sy) n p \<longrightarrow> vouched sy n p) \<and>
     (\<forall>c\<in>set (sy_conns sy). c_phase c = AwaitHello \<longrightarrow> c_token c = None) \<and>
     (\<forall>c\<in>set (sy_conns sy). \<forall>n. c_phase c = Serving n \<longrightarrow> admitted (sy_state sy) n (c_token c))"

definition tokens :: "'id server_state \<Rightarrow> string \<Rightarrow> string option" where
  "tokens st n = map_option g_token (group_of st n)"

lemma admitted_iff: "admitted st n tok \<longleftrightarrow> tok \<noteq> None \<and> tok = tokens st n"
  by (cases "group_of st n") (auto simp: admitted_def tokens_def)

lemma admitted_tokens: "tokens st' = tokens st \<Longrightarrow> admitted st' n tok = admitted st n tok"
  by (simp add: admitted_iff)

lemma not_admitted_None [simp]: "\<not> admitted st n None"
  by (simp add: admitted_def)

lemma tokens_with_group: "(\<And>g. g_token (f g) = g_token g) \<Longrightarrow> tokens (with_group n f st) = tokens st"
  by (rule ext) (auto simp: tokens_def group_of_with_group option.map_comp comp_def)

lemma tokens_exec [simp]: "tokens (with_group n (group_exec op) st) = tokens st"
  by (rule tokens_with_group) (simp add: group_exec_keeps)

text \<open>Every step of the registry by a client changes it only in this way.\<close>

definition grows_by :: "string \<Rightarrow> 'id \<Rightarrow> 'id server_state \<Rightarrow> 'id server_state \<Rightarrow> bool" where
  "grows_by n remote st st' \<longleftrightarrow>
     registry_wf st' \<and> tokens st' = tokens st \<and>
     (\<forall>m s p. lookup_service st' m s = Some p \<longrightarrow> lookup_service st m s = Some p \<or> (m = n \<and> p = remote)) \<and>
     (\<forall>m p. session_in st' m p \<longrightarrow> session_in st m p \<or> (m = n \<and> p = remote))"

lemma grows_by_refl: "registry_wf st \<Longrightarrow> grows_by n remote st st"
  by (simp add: grows_by_def)

lemma grows_by_trans: "grows_by n r st st' \<Longrightarrow> grows_by n r st' st'' \<Longrightarrow> grows_by n r st st''"
  unfolding grows_by_def by metis

lemma grows_by_exec:
  assumes "registry_wf st" and "op_client op = remote"
  shows "grows_by n remote st (with_group n (group_exec op) st)"
  using assms
  by (cases op) (auto simp: grows_by_def registry_wf_exec lookup_service_exec session_in_exec split: if_splits)

lemma grows_by_serve:
  assumes "registry_wf st" and "serve_stream js ir n remote bs st = (fl, st', w)"
    and "after_stream n remote fl st' = (ph, st'')"
  shows "grows_by n remote st st''"
proof -
  have one: "grows_by n remote st st'"
  proof (rule serve_stream_exec [of js ir n remote bs st])
    assume "fst (snd (serve_stream js ir n remote bs st)) = st"
    then show ?thesis using assms by (simp add: grows_by_refl)
  next
    fix op
    assume e: "fst (snd (serve_stream js ir n remote bs st)) = with_group n (group_exec op) st"
      and "op = Touched (bs_now0 bs) (bs_now bs) remote \<or> (\<exists>s. op = Registered s remote)"
    then have "op_client op = remote" by auto
    with e show ?thesis using assms grows_by_exec [OF assms(1)] by simp
  qed
  then have "registry_wf st'" by (simp add: grows_by_def)
  then have "grows_by n remote st' st''"
    using assms(3) grows_by_exec [of st' "Dropped remote" remote n]
    by (auto simp: after_stream_def grows_by_refl split: flow.splits)
  with one show ?thesis by (rule grows_by_trans)
qed

section \<open>Preservation\<close>

lemma vouched_mono:
  assumes "vouched sy n p" and "tokens (sy_state sy') = tokens (sy_state sy)"
    and "\<And>c. c \<in> set (sy_conns sy) \<Longrightarrow> c_token c \<noteq> None \<Longrightarrow>
      \<exists>c'\<in>set (sy_conns sy'). c_remote c' = c_remote c \<and> c_token c' = c_token c"
  shows "vouched sy' n p"
proof -
  obtain c where "c \<in> set (sy_conns sy)" "c_remote c = p" "admitted (sy_state sy) n (c_token c)"
    using assms(1) by (auto simp: vouched_def)
  moreover from this(3) have "c_token c \<noteq> None" by (auto simp: admitted_def)
  ultimately show ?thesis
    using assms(3) [of c] admitted_tokens [OF assms(2)] by (auto simp: vouched_def)
qed

lemma sys_invI:
  assumes "registry_wf (sy_state sy)"
    and "\<And>n s p. lookup_service (sy_state sy) n s = Some p \<Longrightarrow> vouched sy n p"
    and "\<And>n p. session_in (sy_state sy) n p \<Longrightarrow> vouched sy n p"
    and "\<And>c. c \<in> set (sy_conns sy) \<Longrightarrow> c_phase c = AwaitHello \<Longrightarrow> c_token c = None"
    and "\<And>c n. c \<in> set (sy_conns sy) \<Longrightarrow> c_phase c = Serving n \<Longrightarrow> admitted (sy_state sy) n (c_token c)"
  shows "sys_inv sy"
  unfolding sys_inv_def using assms by blast

lemma sys_invD:
  assumes "sys_inv sy"
  shows "registry_wf (sy_state sy)"
    and "lookup_service (sy_state sy) n s = Some p \<Longrightarrow> vouched sy n p"
    and "session_in (sy_state sy) n p \<Longrightarrow> vouched sy n p"
    and "c \<in> set (sy_conns sy) \<Longrightarrow> c_phase c = AwaitHello \<Longrightarrow> c_token c = None"
    and "c \<in> set (sy_conns sy) \<Longrightarrow> c_phase c = Serving m \<Longrightarrow> admitted (sy_state sy) m (c_token c)"
  using assms unfolding sys_inv_def by blast+

text \<open>The registry shrinks or stays, and the connections stay.\<close>

lemma sys_inv_shrink:
  assumes "sys_inv sy" and "registry_wf st'" and "tokens st' = tokens (sy_state sy)"
    and "\<And>n s p. lookup_service st' n s = Some p \<Longrightarrow> lookup_service (sy_state sy) n s = Some p"
    and "\<And>n p. session_in st' n p \<Longrightarrow> session_in (sy_state sy) n p"
  shows "sys_inv (sy\<lparr>sy_state := st'\<rparr>)"
proof -
  note adm = admitted_tokens [OF assms(3)]
  have v: "vouched (sy\<lparr>sy_state := st'\<rparr>) n p = vouched sy n p" for n p
    by (simp add: vouched_def adm)
  show ?thesis
    by (rule sys_invI; simp add: v adm assms(2)) (blast intro: assms(4,5) sys_invD [OF assms(1)])+
qed

text \<open>One connection makes a step.\<close>

lemma kept_conn:
  assumes "d \<in> set cs" and "i < length cs"
    and "d = cs ! i \<Longrightarrow> Q c'" and "Q d"
  shows "\<exists>d'\<in>set (cs[i := c']). Q d'"
proof -
  obtain j where j: "j < length cs" "d = cs ! j"
    using assms(1) by (auto simp: in_set_conv_nth)
  show ?thesis
  proof (cases "j = i")
    case True
    then show ?thesis using assms(2,3) j by (auto intro: set_update_memI)
  next
    case False
    then have "cs[i := c'] ! j = d" "j < length (cs[i := c'])" using j by simp_all
    then show ?thesis using assms(4) nth_mem by metis
  qed
qed

text \<open>
  What a step of connection \<open>c\<close> may do: become \<open>c'\<close>, with the same peer and no token forgotten,
  while the registry grows only by what the peer may own.
\<close>

definition conn_moves :: "'id system \<Rightarrow> nat \<Rightarrow> 'id conn \<Rightarrow> string \<Rightarrow> 'id server_state \<Rightarrow> bool" where
  "conn_moves sy i c' n st' \<longleftrightarrow>
     i < length (sy_conns sy) \<and> c_remote c' = c_remote (sy_conns sy ! i) \<and>
     (c_token (sy_conns sy ! i) = None \<or> c_token c' = c_token (sy_conns sy ! i)) \<and>
     grows_by n (c_remote c') (sy_state sy) st' \<and>
     (admitted (sy_state sy) n (c_token c') \<or> (st' = sy_state sy \<and> c_phase c' = Ended)) \<and>
     (c_phase c' = Serving n \<or> c_phase c' = Ended)"

lemma conn_moves_vouched:
  assumes "conn_moves sy i c' n st'" and "vouched sy m p"
  shows "vouched \<lparr>sy_state = st', sy_conns = (sy_conns sy)[i := c']\<rparr> m p"
proof (rule vouched_mono [OF assms(2)])
  fix d
  assume d: "d \<in> set (sy_conns sy)" "c_token d \<noteq> None"
  have "d = sy_conns sy ! i \<Longrightarrow> c_remote c' = c_remote d \<and> c_token c' = c_token d"
    using d(2) assms(1) by (auto simp: conn_moves_def)
  from kept_conn [where Q = "\<lambda>x. c_remote x = c_remote d \<and> c_token x = c_token d" and c' = c', OF d(1) _ this]
  show "\<exists>d'\<in>set (sy_conns \<lparr>sy_state = st', sy_conns = (sy_conns sy)[i := c']\<rparr>).
      c_remote d' = c_remote d \<and> c_token d' = c_token d"
    using assms(1) by (simp add: conn_moves_def)
qed (use assms(1) in \<open>simp add: conn_moves_def grows_by_def\<close>)

lemma conn_moves_visible:
  assumes inv: "sys_inv sy" and mv: "conn_moves sy i c' n st'"
    and vis: "lookup_service st' m s = Some p \<or> session_in st' m p"
  shows "vouched \<lparr>sy_state = st', sy_conns = (sy_conns sy)[i := c']\<rparr> m p"
proof (cases "st' = sy_state sy \<or> vouched sy m p")
  case True
  then have "vouched sy m p"
    using vis sys_invD(2,3) [OF inv] by blast
  then show ?thesis by (rule conn_moves_vouched [OF mv])
next
  case False
  have grow: "grows_by n (c_remote c') (sy_state sy) st'" and i: "i < length (sy_conns sy)"
    and adm: "admitted (sy_state sy) n (c_token c')"
    using mv False by (auto simp: conn_moves_def)
  then have "tokens st' = tokens (sy_state sy)" "m = n \<and> p = c_remote c'"
    using vis False sys_invD(2,3) [OF inv] unfolding grows_by_def by metis+
  with adm i show ?thesis
    using admitted_tokens [of st' "sy_state sy"] set_update_memI [OF i, of c'] by (auto simp: vouched_def)
qed

lemma sys_inv_conn:
  assumes inv: "sys_inv sy" and mv: "conn_moves sy i c' n st'"
  shows "sys_inv \<lparr>sy_state = st', sy_conns = (sy_conns sy)[i := c']\<rparr>"
proof -
  have "tokens st' = tokens (sy_state sy)" and wf: "registry_wf st'"
    using mv by (simp_all add: conn_moves_def grows_by_def)
  note adm = admitted_tokens [OF this(1)]
  have mem: "d \<in> set (sy_conns sy) \<or> d = c'" if "d \<in> set ((sy_conns sy)[i := c'])" for d
    using that set_update_subset_insert by fastforce
  have "c_token d = None" if "d \<in> set ((sy_conns sy)[i := c'])" "c_phase d = AwaitHello" for d
    using mem [OF that(1)] that(2) mv sys_invD(4) [OF inv] by (auto simp: conn_moves_def)
  moreover have "admitted st' m (c_token d)"
    if "d \<in> set ((sy_conns sy)[i := c'])" "c_phase d = Serving m" for d m
    using mem [OF that(1)] that(2) mv sys_invD(5) [OF inv] by (auto simp: adm conn_moves_def)
  ultimately show ?thesis
    using wf conn_moves_visible [OF inv mv] by (intro sys_invI) (simp_all, blast+)
qed

lemma tokens_sweep:
  assumes "registry_wf st"
  shows "tokens (sweep_dead_sessions now timeout st) = tokens st"
proof
  fix n
  have "g_token (sweep_group c g) = g_token g" for c and g :: "'a group"
    by (simp add: sweep_group_def)
  then show "tokens (sweep_dead_sessions now timeout st) n = tokens st n"
    using sweep_fold [OF assms, of "now - timeout" "dump_services st" n]
    by (simp add: tokens_def sweep_dead_sessions_def Let_def option.map_comp comp_def)
qed

lemma sweep_shrinks:
  assumes "registry_wf st"
  shows "lookup_service (sweep_dead_sessions now timeout st) n s = Some p \<Longrightarrow> lookup_service st n s = Some p"
    and "session_in (sweep_dead_sessions now timeout st) n p \<Longrightarrow> session_in st n p"
proof -
  let ?c = "now - timeout"
  have g: "group_of (sweep_dead_sessions now timeout st) n = group_of st n \<or>
      group_of (sweep_dead_sessions now timeout st) n = map_option (sweep_group ?c) (group_of st n)"
    using sweep_fold [OF assms, of ?c "dump_services st" n]
    by (auto simp: sweep_dead_sessions_def Let_def)
  have wf: "group_wf g" if "group_of st n = Some g" for g
    using registry_wf_group [OF assms that] by simp
  have "group_lookup g s = Some p" if "group_of st n = Some g" "group_lookup (sweep_group ?c g) s = Some p" for g
    using that wf [OF that(1)]
    by (auto simp: sweep_group_def group_lookup_drop_all split: option.splits if_splits)
  then show "lookup_service (sweep_dead_sessions now timeout st) n s = Some p \<Longrightarrow> lookup_service st n s = Some p"
    using g by (cases "group_of st n") (auto simp: lookup_service_def)
  have "has_session g p" if "group_of st n = Some g" "has_session (sweep_group ?c g) p" for g
    using that by (auto simp: has_session_def sessions_sweep [OF wf [OF that(1)]] split: if_splits)
  then show "session_in (sweep_dead_sessions now timeout st) n p \<Longrightarrow> session_in st n p"
    using g by (cases "group_of st n") (auto simp: session_in_def)
qed

lemma grows_by_hello:
  assumes "registry_wf st" and "hello_step js remote sid bs st = (out, st', w)"
  shows "\<exists>n. grows_by n remote st st' \<and>
    (admitted st n (presented js bs) \<and> (out = Open n \<or> (\<forall>m. out \<noteq> Open m)) \<or> (st' = st \<and> (\<forall>m. out \<noteq> Open m)))"
proof (cases "\<exists>h g. fst (read_from js (bs_reader bs)) = Inr (Hello h) \<and> authenticate st (group_token h) = Some g")
  case True
  then obtain h g where h: "fst (read_from js (bs_reader bs)) = Inr (Hello h)"
    and g: "authenticate st (group_token h) = Some g" by blast
  have st': "st' = with_group (g_name g) (group_exec (Touched (bs_now0 bs) (bs_now bs) remote)) st"
    using hello_step_state [of js remote sid bs st] assms(2) h g by simp
  have "admitted st (g_name g) (presented js bs)"
    using authenticate_SomeD [OF assms(1) g] h by (simp add: admitted_def presented_def)
  moreover have "m = g_name g" if "out = Open m" for m
    using hello_step_Open [OF assms(2) [unfolded that]] h g by fastforce
  moreover have "grows_by (g_name g) remote st st'"
    unfolding st' by (rule grows_by_exec [OF assms(1)]) simp
  ultimately show ?thesis by blast
next
  case False
  have "out \<noteq> Open m" for m
  proof
    assume "out = Open m"
    from hello_step_Open [OF assms(2) [unfolded this]] False show False by blast
  qed
  moreover have "st' = st"
    using False hello_step_state [of js remote sid bs st] assms(2)
    by (auto split: sum.splits frame.splits option.splits)
  ultimately show ?thesis
    using grows_by_refl [OF assms(1)] by blast
qed

text \<open>One lemma per kind of step.\<close>

lemma sys_inv_accept:
  assumes "sys_inv sy"
  shows "sys_inv (sy\<lparr>sy_conns := sy_conns sy @ [\<lparr>c_remote = r, c_phase = AwaitHello, c_token = None\<rparr>]\<rparr>)"
    (is "sys_inv ?sy")
proof -
  have "vouched ?sy n p = vouched sy n p" for n p
    by (auto simp: vouched_def)
  then show ?thesis
    using sys_invD [OF assms] by (intro sys_invI) auto
qed

lemma sys_inv_greet:
  assumes "sys_inv sy" and "i < length (sy_conns sy)" and "c = sy_conns sy ! i" and "c_phase c = AwaitHello"
    and "hello_step js (c_remote c) sid bs (sy_state sy) = (out, st', w)"
  shows "sys_inv \<lparr>sy_state = st',
    sy_conns = (sy_conns sy)[i := c\<lparr>c_phase := phase_after_hello out, c_token := presented js bs\<rparr>]\<rparr>"
proof -
  obtain n where n: "grows_by n (c_remote c) (sy_state sy) st'"
    "admitted (sy_state sy) n (presented js bs) \<and> (out = Open n \<or> (\<forall>m. out \<noteq> Open m))
      \<or> (st' = sy_state sy \<and> (\<forall>m. out \<noteq> Open m))"
    using grows_by_hello [OF sys_invD(1) [OF assms(1)] assms(5)] by blast
  have "c_token c = None"
    using assms sys_invD(4) [OF assms(1), of c] by simp
  with n assms(2,3) show ?thesis
    by (intro sys_inv_conn [OF assms(1), of _ _ n])
      (auto simp: conn_moves_def phase_after_hello_def split: hello_outcome.splits)
qed

lemma sys_inv_serve:
  assumes "sys_inv sy" and "i < length (sy_conns sy)" and "c = sy_conns sy ! i" and "c_phase c = Serving n"
    and "serve_stream js ir n (c_remote c) bs (sy_state sy) = (fl, st', w)"
    and "after_stream n (c_remote c) fl st' = (ph, st'')"
  shows "sys_inv \<lparr>sy_state = st'', sy_conns = (sy_conns sy)[i := c\<lparr>c_phase := ph\<rparr>]\<rparr>"
proof -
  have "admitted (sy_state sy) n (c_token c)"
    using assms sys_invD(5) [OF assms(1), of c] by simp
  moreover have "ph = Serving n \<or> ph = Ended"
    using assms(6) by (auto simp: after_stream_def split: flow.splits)
  moreover have "grows_by n (c_remote c) (sy_state sy) st''"
    using grows_by_serve [OF sys_invD(1) [OF assms(1)] assms(5,6)] .
  ultimately show ?thesis
    using assms(2,3) by (intro sys_inv_conn [OF assms(1), of _ _ n]) (auto simp: conn_moves_def)
qed

lemma sys_inv_close:
  assumes "sys_inv sy" and "i < length (sy_conns sy)" and "c_phase (sy_conns sy ! i) = Serving n"
  shows "sys_inv (close_conn i n sy)"
proof -
  let ?p = "c_remote (sy_conns sy ! i)"
  have "admitted (sy_state sy) n (c_token (sy_conns sy ! i))"
    using assms sys_invD(5) [OF assms(1), of "sy_conns sy ! i"] by simp
  moreover have "grows_by n ?p (sy_state sy) (with_group n (group_exec (Dropped ?p)) (sy_state sy))"
    by (rule grows_by_exec [OF sys_invD(1) [OF assms(1)]]) simp
  ultimately show ?thesis
    using assms(2) unfolding close_conn_def Let_def
    by (intro sys_inv_conn [OF assms(1), of _ _ n]) (auto simp: conn_moves_def)
qed

lemma sys_inv_sweep:
  assumes "sys_inv sy"
  shows "sys_inv (sy\<lparr>sy_state := sweep_dead_sessions now timeout (sy_state sy)\<rparr>)"
proof -
  note wf = sys_invD(1) [OF assms]
  show ?thesis
    by (rule sys_inv_shrink [OF assms])
      (auto simp: registry_wf_sweep wf tokens_sweep dest: sweep_shrinks [OF wf])
qed

lemma sys_inv_relay_table:
  assumes "sys_inv sy" and "registry_step (sy_state sy) st'" and "groups st' = groups (sy_state sy)"
  shows "sys_inv (sy\<lparr>sy_state := st'\<rparr>)"
proof -
  have "group_of st' = group_of (sy_state sy)"
    using assms(3) by (auto simp: group_of_def)
  then have "lookup_service st' = lookup_service (sy_state sy)" "session_in st' = session_in (sy_state sy)"
    "tokens st' = tokens (sy_state sy)"
    by (auto simp: lookup_service_def session_in_def tokens_def fun_eq_iff)
  with registry_step_wf [OF assms(2) sys_invD(1) [OF assms(1)]] show ?thesis
    by (intro sys_inv_shrink [OF assms(1)]) auto
qed

lemmas sys_inv_steps = sys_inv_accept sys_inv_greet sys_inv_serve sys_inv_close sys_inv_sweep sys_inv_relay_table

lemma sys_step_inv: "sys_step js ir sy sy' \<Longrightarrow> sys_inv sy \<Longrightarrow> sys_inv sy'"
  by (induction rule: sys_step.induct) (rule sys_inv_steps; assumption)+

lemma sys_inv_initial:
  assumes "new_server_state gs ovs = Some st" and "distinct (map gc_name gs)"
  shows "sys_inv (initial_system st)"
proof -
  have "lookup_service st n s = None" "\<not> session_in st n p" for n s p
    using group_of_new [OF assms]
    by (auto simp: lookup_service_def session_in_def new_group_empty split: option.splits)
  then show ?thesis
    using registry_wf_new [OF assms(1)] by (intro sys_invI) (simp_all add: initial_system_def)
qed

lemma sys_run_inv: "(sys_step js ir)\<^sup>*\<^sup>* sy sy' \<Longrightarrow> sys_inv sy \<Longrightarrow> sys_inv sy'"
  by (induction rule: rtranclp_induct) (auto intro: sys_step_inv)

section \<open>Properties\<close>

text \<open>
  C1. Only clients that know a group's token are ever visible in it: in every state that the
  server can reach, under any interleaving of connections, sweeps and relay tasks, a provider
  or a session found in a group belongs to a client that presented this group's token on one
  of its connections, and a connection is served in a group only if it presented its token.
\<close>

theorem only_token_holders_visible:
  assumes "new_server_state gs ovs = Some st" and "distinct (map gc_name gs)"
    and "(sys_step js ir)\<^sup>*\<^sup>* (initial_system st) sy"
  shows "registry_wf (sy_state sy) \<and>
    (\<forall>n s p. lookup_service (sy_state sy) n s = Some p \<or> session_in (sy_state sy) n p \<longrightarrow>
      (\<exists>c\<in>set (sy_conns sy). \<exists>g. c_remote c = p \<and> group_of (sy_state sy) n = Some g \<and>
         c_token c = Some (g_token g))) \<and>
    (\<forall>c\<in>set (sy_conns sy). \<forall>n. c_phase c = Serving n \<longrightarrow>
      (\<exists>g. group_of (sy_state sy) n = Some g \<and> c_token c = Some (g_token g)))"
proof -
  have inv: "sys_inv sy"
    using sys_run_inv [OF assms(3)] sys_inv_initial [OF assms(1,2)] by simp
  show ?thesis
    using sys_invD [OF inv] by (fastforce simp: vouched_def admitted_def)
qed

theorem only_token_holders_visible_witness:
  "\<exists>(st :: nat server_state) sy. new_server_state demo_groups [] = Some st \<and>
     (sys_step marked_codec unary_ids)\<^sup>*\<^sup>* (initial_system st) sy \<and> length (sy_conns sy) = 1 \<and>
     registry_wf (sy_state sy)"
proof -
  obtain st :: "nat server_state" where st: "new_server_state demo_groups [] = Some st"
    by (simp add: new_server_state_def demo_groups_def hm_empty_def)
  have d: "distinct (map gc_name demo_groups)"
    by (simp add: demo_groups_def)
  let ?sy = "(initial_system st)\<lparr>sy_conns := sy_conns (initial_system st) @
    [\<lparr>c_remote = 3, c_phase = AwaitHello, c_token = None\<rparr>]\<rparr>"
  have run: "(sys_step marked_codec unary_ids)\<^sup>*\<^sup>* (initial_system st) ?sy"
    by (rule r_into_rtranclp) (rule sys_step.accept)
  have "length (sy_conns ?sy) = 1"
    by (simp add: initial_system_def)
  with only_token_holders_visible [OF st d run] st run show ?thesis
    by blast
qed



end
