(* ===== verification/Exchange.thy ===== *)
theory Exchange
  imports Expose Server_System
begin

text \<open>
  The two ends of a stream put together: what one side reads is what the other side wrote. These
  are the lemmas behind the end-to-end properties, which run the client's functions of
  \<open>Consume\<close> and \<open>Expose\<close> against the server's of \<open>Control\<close> and \<open>Relay\<close>.
\<close>

section \<open>The server's end\<close>

definition server_end :: "int \<Rightarrow> int \<Rightarrow> writer \<Rightarrow> bi_stream" where
  "server_end t0 t w = \<lparr>bs_reader = peer_reader w, bs_writer = idle_writer, bs_now0 = t0, bs_now = t\<rparr>"

section \<open>One request and its answer\<close>

lemma hello_step_accepts:
  assumes "json_codec_ok js" and "sendable js (Hello h)" and "sendable js (HelloOk \<lparr>session_id = sid\<rparr>)"
    and "authenticate st (group_token h) = Some g"
  shows "hello_step js me sid (server_end t0 t (sent js (Hello h))) st =
    (Open (g_name g), with_group (g_name g) (group_exec (Touched t0 t me)) st, sent js (HelloOk \<lparr>session_id = sid\<rparr>))"
  using assms by (simp add: hello_step_def server_end_def touch_session_exec wire_simps)

definition subscribe_answer :: "'id id_codec \<Rightarrow> string \<Rightarrow> 'id option \<Rightarrow> frame" where
  "subscribe_answer ir service found = SubscribeOk \<lparr>subok_service = service,
     provider_node_id = map_option (id_to_string ir) found, relay_required = False\<rparr>"

lemma serve_stream_subscribe:
  assumes "json_codec_ok js" and "sendable js (Subscribe \<lparr>sub_service = service\<rparr>)"
    and "sendable js (subscribe_answer ir service (lookup_service st n service))"
  shows "serve_stream js ir n me (server_end t0 t (sent js (Subscribe \<lparr>sub_service = service\<rparr>))) st =
    (Continue, st, sent js (subscribe_answer ir service (lookup_service st n service)))"
  using assms
  by (auto simp: serve_stream_def handle_subscribe_def flow_of_def server_end_def wire_simps
      subscribe_answer_def split: option.splits)

lemma subscribe_request_answered:
  assumes "json_codec_ok js" and "id_codec_ok ir" and "sendable js (Subscribe \<lparr>sub_service = service\<rparr>)"
    and "sendable js (subscribe_answer ir service found)"
  shows "subscribe_request js ir service (client_end (sent js (subscribe_answer ir service found))) =
    (case found of Some p \<Rightarrow> Inr p | None \<Rightarrow> Inl (NoProvider service),
     sent js (Subscribe \<lparr>sub_service = service\<rparr>))"
  using assms
  by (cases found) (simp_all add: subscribe_request_def client_end_def wire_simps subscribe_answer_def
      id_codec_ok_def)

lemma serve_stream_register:
  assumes "json_codec_ok js" and "sendable js (register_frame name)" and "sendable js (registered_frame name)"
    and "group_of st n \<noteq> None" and "length name \<le> 32"
  shows "serve_stream js ir n me (server_end t0 t (sent js (register_frame name))) st =
    (Continue, with_group n (group_exec (Registered name me)) st, sent js (registered_frame name))"
proof -
  obtain g where g: "group_of st n = Some g" using assms(4) by blast
  have "handle_register js n me \<lparr>reg_service = name\<rparr> idle_writer st =
    (Inr (), with_group n (group_exec (Registered name me)) st, sent js (registered_frame name))"
    using handle_register_state [of js n me "\<lparr>reg_service = name\<rparr>" idle_writer st] g assms(3,5)
    by (auto simp: handle_register_def register_service_def wire_simps split: prod.splits)
  then show ?thesis
    using assms(1,2) by (simp add: serve_stream_def flow_of_def server_end_def wire_simps)
qed

section \<open>All registrations of a client\<close>

lemma serve_loop_registers:
  assumes "json_codec_ok js" and "list_all (registrable js) names" and "group_of st n \<noteq> None"
  shows "serve_loop js ir n me (map (\<lambda>m. server_end t0 t (sent js (register_frame m))) names) st =
    (Break, fold (\<lambda>m. with_group n (group_exec (Registered m me))) names st,
     map (\<lambda>m. sent js (registered_frame m)) names)"
  using assms(2,3)
  by (induction names arbitrary: st)
    (simp_all add: registrable_def serve_stream_register [OF assms(1)] group_of_with_group)

lemma lookup_after_registrations:
  assumes "registry_wf st" and "group_of st n \<noteq> None" and "\<forall>m\<in>set names. length m \<le> 32"
  shows "lookup_service (fold (\<lambda>m. with_group n (group_exec (Registered m me))) names st) n s =
    (if s \<in> set names then Some me else lookup_service st n s)"
  using assms
  by (induction names arbitrary: st)
    (auto simp: lookup_service_exec registry_wf_exec group_of_with_group)

lemma session_in_registrations:
  "session_in st n c \<Longrightarrow> session_in (fold (\<lambda>m. with_group n (group_exec (Registered m me))) names st) n c"
  by (induction names arbitrary: st) (simp_all add: session_in_exec)

section \<open>Whole exchanges\<close>

text \<open>The registry after a client's \<open>Hello\<close> and its registrations, in one group.\<close>

definition after_registering ::
  "string \<Rightarrow> 'id \<Rightarrow> int \<Rightarrow> int \<Rightarrow> string list \<Rightarrow> 'id server_state \<Rightarrow> 'id server_state" where
  "after_registering n me t0 t names st =
     fold (\<lambda>m. with_group n (group_exec (Registered m me))) names
       (with_group n (group_exec (Touched t0 t me)) st)"

lemma after_registering_ops:
  "after_registering n me t0 t names st =
     fold (\<lambda>op. with_group n (group_exec op)) (Touched t0 t me # map (\<lambda>m. Registered m me) names) st"
  by (simp add: after_registering_def fold_map comp_def)

lemma registry_wf_execs:
  "registry_wf st \<Longrightarrow> registry_wf (fold (\<lambda>op. with_group n (group_exec op)) ops st)"
  by (induction ops arbitrary: st) (simp_all add: registry_wf_exec)

lemma lookup_after_registering:
  assumes "registry_wf st" and "group_of st n \<noteq> None" and "list_all (registrable js) names"
  shows "lookup_service (after_registering n me t0 t names st) m s =
    (if m = n \<and> s \<in> set names then Some me else lookup_service st m s)"
proof (cases "m = n")
  case True
  let ?st1 = "with_group n (group_exec (Touched t0 t me)) st"
  have "registry_wf ?st1" and "group_of ?st1 n \<noteq> None"
    using assms(1,2) by (simp_all add: registry_wf_exec group_of_with_group)
  then show ?thesis
    using True assms(1,3) lookup_after_registrations [of ?st1 n names me s]
    by (auto simp: after_registering_def lookup_service_exec list_all_iff registrable_def)
next
  case False
  have "lookup_service (fold (\<lambda>op. with_group n (group_exec op)) ops st) m s = lookup_service st m s" for ops
    using assms(1) False by (induction ops arbitrary: st) (simp_all add: lookup_service_exec registry_wf_exec)
  with False show ?thesis
    by (simp only: after_registering_ops) simp
qed

lemma session_after_registering:
  "group_of st n \<noteq> None \<Longrightarrow> session_in (after_registering n me t0 t names st) n me"
  unfolding after_registering_def by (intro session_in_registrations) (auto simp: session_in_exec)

lemma register_exchange:
  assumes "json_codec_ok js" and "registry_wf st" and "authenticate st token = Some g"
    and "sendable js (Hello \<lparr>group_token = token, client_info = info\<rparr>)"
    and "sendable js (HelloOk \<lparr>session_id = sid\<rparr>)"
    and "list_all (registrable js) (exposed @ statics)"
  obtains w ws s ss st1 where
    "register_with_server js token info exposed statics (Some (map client_end (s # ss))) = (Inr (), w # ws)"
    "hello_step js me sid (server_end start now w) st = (Open (g_name g), st1, s)"
    "serve_loop js ir (g_name g) me (map (server_end start now) ws) st1 =
      (Break, after_registering (g_name g) me start now (exposed @ statics) st, ss)"
proof -
  let ?n = "g_name g" and ?names = "exposed @ statics"
  let ?st1 = "with_group ?n (group_exec (Touched start now me)) st"
  have "register_with_server js token info exposed statics
      (Some (map client_end (sent js (HelloOk \<lparr>session_id = sid\<rparr>) # map (\<lambda>m. sent js (registered_frame m)) ?names))) =
    (Inr (), sent js (Hello \<lparr>group_token = token, client_info = info\<rparr>) # map (\<lambda>m. sent js (register_frame m)) ?names)"
    using assms register_all_answered [OF assms(1,6)]
    by (simp add: register_with_server_def client_hello_accepted comp_def)
  moreover have "hello_step js me sid (server_end start now (sent js (Hello \<lparr>group_token = token, client_info = info\<rparr>))) st =
    (Open ?n, ?st1, sent js (HelloOk \<lparr>session_id = sid\<rparr>))"
    using assms by (simp add: hello_step_accepts)
  moreover have "serve_loop js ir ?n me (map (server_end start now) (map (\<lambda>m. sent js (register_frame m)) ?names)) ?st1 =
    (Break, after_registering ?n me start now ?names st, map (\<lambda>m. sent js (registered_frame m)) ?names)"
    using serve_loop_registers [OF assms(1,6), of ?st1 ?n] authenticate_SomeD [OF assms(2,3)]
    by (simp add: comp_def after_registering_def group_of_with_group)
  ultimately show ?thesis
    using that by blast
qed

lemma subscribe_exchange:
  assumes "json_codec_ok js" and "id_codec_ok ir" and "registry_wf st" and "authenticate st token = Some g"
    and "list_all (sendable js) [Hello \<lparr>group_token = token, client_info = client_info_text version\<rparr>,
       HelloOk \<lparr>session_id = sid\<rparr>, Subscribe \<lparr>sub_service = service\<rparr>,
       subscribe_answer ir service (lookup_service st (g_name g) service)]"
  obtains w1 w2 s1 s2 st' where
    "subscribe_to js ir version token service (Some [client_end s1, client_end s2]) =
      (case lookup_service st (g_name g) service of Some p \<Rightarrow> Inr p | None \<Rightarrow> Inl (NoProvider service), [w1, w2])"
    "run_session js ir me sid (Some (server_end start now w1)) [server_end start now w2] st = (Clean, st', [s1, s2])"
    "\<forall>m s. lookup_service st' m s =
      (if m = g_name g \<and> lookup_service st m s = Some me then None else lookup_service st m s)"
proof -
  let ?h = "Hello \<lparr>group_token = token, client_info = client_info_text version\<rparr>"
  let ?ok = "HelloOk \<lparr>session_id = sid\<rparr>"
  let ?st1 = "with_group (g_name g) (group_exec (Touched start now me)) st"
  let ?st' = "with_group (g_name g) (group_exec (Dropped me)) ?st1"
  let ?ans = "subscribe_answer ir service (lookup_service st (g_name g) service)"
  have st1: "lookup_service ?st1 m s = lookup_service st m s" for m s
    by (simp add: lookup_service_exec [OF assms(3)])
  have g: "group_of st (g_name g) \<noteq> None"
    using authenticate_SomeD [OF assms(3,4)] by simp
  have "subscribe_to js ir version token service (Some [client_end (sent js ?ok), client_end (sent js ?ans)]) =
    (case lookup_service st (g_name g) service of Some p \<Rightarrow> Inr p | None \<Rightarrow> Inl (NoProvider service),
     [sent js ?h, sent js (Subscribe \<lparr>sub_service = service\<rparr>)])"
    using assms by (simp add: subscribe_to_def client_hello_accepted subscribe_request_answered)
  moreover have "run_session js ir me sid (Some (server_end start now (sent js ?h)))
      [server_end start now (sent js (Subscribe \<lparr>sub_service = service\<rparr>))] st =
    (Clean, ?st', [sent js ?ok, sent js ?ans])"
    using assms st1 by (simp add: run_session_def hello_step_accepts serve_stream_subscribe drop_session_exec)
  moreover have "lookup_service ?st' m s =
      (if m = g_name g \<and> lookup_service st m s = Some me then None else lookup_service st m s)" for m s
    using g assms(3) by (auto simp: lookup_service_exec registry_wf_exec group_of_with_group)
  ultimately show ?thesis
    using that by blast
qed

text \<open>What clients do in a group leaves the tokens of all groups as they are.\<close>

lemma find_hm_insert:
  assumes "hm_get m k = Some v" and "P v' = P v" and "name v' = name v"
  shows "map_option name (List.find P (map snd (hm_insert k v' m))) = map_option name (List.find P (map snd m))"
  using assms by (induction m) (auto split: if_splits)

lemma authenticate_exec:
  "map_option g_name (authenticate (with_group n (group_exec op) st) token) = map_option g_name (authenticate st token)"
proof (cases "hm_get (groups st) n")
  case None
  then show ?thesis by (simp add: with_group_def)
next
  case (Some g)
  then show ?thesis
    using find_hm_insert [OF Some, of "\<lambda>g. g_token g = token" "group_exec op g" g_name]
    by (simp add: with_group_def authenticate_def group_exec_keeps)
qed

lemma authenticate_after_registering:
  "map_option g_name (authenticate (after_registering n me t0 t names st) token) = map_option g_name (authenticate st token)"
proof -
  have "map_option g_name (authenticate (fold (\<lambda>op. with_group n (group_exec op)) ops st) token) =
      map_option g_name (authenticate st token)" for ops
    by (induction ops arbitrary: st) (simp_all add: authenticate_exec)
  then show ?thesis
    by (simp only: after_registering_ops)
qed

text \<open>A subscription of any client to the registry that a provider's registrations have left.\<close>

lemma subscribe_after_registering:
  fixes exposed statics st me g t0 t
  defines "st2 \<equiv> after_registering (g_name g) me t0 t (exposed @ statics) st"
  assumes "json_codec_ok js" and "id_codec_ok ir" and "registry_wf st"
    and "authenticate st token = Some g'"
    and "list_all (sendable js) [Hello \<lparr>group_token = token, client_info = client_info_text version\<rparr>,
       HelloOk \<lparr>session_id = sid\<rparr>, Subscribe \<lparr>sub_service = service\<rparr>,
       subscribe_answer ir service (lookup_service st2 (g_name g') service)]"
  obtains w1 w2 s1 s2 st3 where
    "subscribe_to js ir version token service (Some [client_end s1, client_end s2]) =
      (case lookup_service st2 (g_name g') service of Some p \<Rightarrow> Inr p | None \<Rightarrow> Inl (NoProvider service), [w1, w2])"
    "run_session js ir consumer sid (Some (server_end start now w1)) [server_end start now w2] st2 = (Clean, st3, [s1, s2])"
    "\<forall>m s. lookup_service st3 m s =
      (if m = g_name g' \<and> lookup_service st2 m s = Some consumer then None else lookup_service st2 m s)"
proof -
  have "map_option g_name (authenticate st2 token) = Some (g_name g')"
    by (simp add: st2_def authenticate_after_registering assms(5))
  then obtain g2 where g2: "authenticate st2 token = Some g2" "g_name g2 = g_name g'"
    by auto
  have wf: "registry_wf st2"
    unfolding st2_def after_registering_ops by (rule registry_wf_execs [OF assms(4)])
  show ?thesis
    by (rule subscribe_exchange [OF assms(2,3) wf g2(1) assms(6) [folded g2(2)],
        where me = consumer and start = start and now = now, unfolded g2(2)]) (rule that)
qed

lemma sendable_marked_answer:
  assumes "list_all (\<lambda>c. (of_char c :: nat) < 128) s" and "length s \<le> 99" and "found = Some i" and "i \<le> 99"
  shows "sendable marked_codec (subscribe_answer unary_ids s found)"
  using assms
  by (simp add: sendable_def subscribe_answer_def ascii_utf8 list_all_iff write_json_def marked_codec_def
      length_put_str unary_ids_def U16_MAX_def MAX_FRAME_PAYLOAD_def)

lemma sendable_marked_no_answer:
  assumes "list_all (\<lambda>c. (of_char c :: nat) < 128) s" and "length s \<le> 99"
  shows "sendable marked_codec (subscribe_answer unary_ids s None)"
  using assms
  by (simp add: sendable_def subscribe_answer_def ascii_utf8 list_all_iff write_json_def marked_codec_def
      length_put_str U16_MAX_def MAX_FRAME_PAYLOAD_def)

end
