(* ===== verification/Registration.thy ===== *)
theory Registration
  imports Expose
begin

text \<open>
  The registration task of \<^verbatim>\<open>crates/client/src/main.rs\<close>: an endless loop that registers the client's
  services, then sends a heartbeat every \<open>CLIENT_HEARTBEAT_INTERVAL\<close> until one cannot be sent, and
  starts over. Every step is reported to the runtime status. Beside it, the task that drains the
  streams on which the server sends its own heartbeats.
\<close>

section \<open>One turn\<close>

definition CLIENT_HEARTBEAT_INTERVAL :: nat where
  "CLIENT_HEARTBEAT_INTERVAL = 60"

definition RETRY_DELAY_SECS :: nat where
  "RETRY_DELAY_SECS = 5"

text \<open>
  The heartbeats: for each one, the clock when it has been written and the stream that \<open>open_bi\<close>
  gave. The end of the list is an \<open>open_bi\<close> that fails, or has not returned yet.
\<close>

fun heartbeat_loop :: "json_codec \<Rightarrow> (int \<times> writer) list \<Rightarrow> runtime_status \<Rightarrow> runtime_status \<times> writer list" where
  "heartbeat_loop js [] rs = (rs, [])"
| "heartbeat_loop js ((now, w) # beats) rs =
     (case write_to js Heartbeat w of
        (Inl e, w') \<Rightarrow> (rs, [w'])
      | (Inr _, w') \<Rightarrow>
          (case heartbeat_loop js beats (record_heartbeat now rs) of (rs', ws) \<Rightarrow> (rs', w' # ws)))"

record reg_turn =
  tn_start :: int
  tn_conn :: dialled
  tn_done :: int
  tn_beats :: "(int \<times> writer) list"

record registrant =
  rg_token :: string
  rg_info :: string
  rg_exposes :: "string list"
  rg_statics :: "string list"

definition turn_outcome :: "json_codec \<Rightarrow> registrant \<Rightarrow> reg_turn \<Rightarrow> (register_failure + unit) \<times> writer list" where
  "turn_outcome js rg tn =
     register_with_server js (rg_token rg) (rg_info rg) (rg_exposes rg) (rg_statics rg) (tn_conn tn)"

text \<open>
  A panic of the decoder, while the answer to the \<open>Hello\<close> or to a \<open>Register\<close> is read, is not a value that
  \<open>match\<close> could see: it unwinds the spawned task.
\<close>

fun unwinds :: "register_failure \<Rightarrow> bool" where
  "unwinds (RegRead Panic) = True"
| "unwinds (RegHello (SubRead Panic)) = True"
| "unwinds e = False"

text \<open>
  The result is the delay before the next turn, in seconds, or \<open>None\<close> when the task is gone, and the
  status.
\<close>

definition registration_turn ::
  "json_codec \<Rightarrow> (register_failure \<Rightarrow> string) \<Rightarrow> registrant \<Rightarrow> reg_turn \<Rightarrow> runtime_status \<Rightarrow> nat option \<times> runtime_status" where
  "registration_turn js show_error rg tn rs =
     (let rs1 = set_control_state (tn_start tn) Registering None rs in
      case fst (turn_outcome js rg tn) of
        Inr _ \<Rightarrow> (Some 0, fst (heartbeat_loop js (tn_beats tn) (set_control_state (tn_done tn) Registered_state None rs1)))
      | Inl e \<Rightarrow>
          if unwinds e then (None, rs1)
          else (Some RETRY_DELAY_SECS, set_control_state (tn_done tn) Reconnecting (Some (show_error e)) rs1))"

fun registration_task ::
  "json_codec \<Rightarrow> (register_failure \<Rightarrow> string) \<Rightarrow> registrant \<Rightarrow> reg_turn list \<Rightarrow> runtime_status
     \<Rightarrow> nat option list \<times> runtime_status" where
  "registration_task js show_error rg [] rs = ([], rs)"
| "registration_task js show_error rg (tn # tns) rs =
     (case registration_turn js show_error rg tn rs of
        (None, rs') \<Rightarrow> ([None], rs')
      | (Some delay, rs') \<Rightarrow>
          (case registration_task js show_error rg tns rs' of (ds, rs'') \<Rightarrow> (Some delay # ds, rs'')))"

text \<open>
  The task beside it reads one frame from every stream of the server and ignores it, error or not;
  a panic in the decoder ends the task. The result is the number of streams taken.
\<close>

fun drain_task :: "json_codec \<Rightarrow> reader list \<Rightarrow> nat" where
  "drain_task js [] = 0"
| "drain_task js (r # rs) = (if fst (read_from js r) = Inl Panic then 1 else Suc (drain_task js rs))"

section \<open>A registration that succeeds\<close>

definition answered_ok :: "json_codec \<Rightarrow> string \<Rightarrow> reader \<times> writer \<Rightarrow> bool" where
  "answered_ok js name rw \<longleftrightarrow>
     fst (write_to js (Register \<lparr>reg_service = name\<rparr>) (snd rw)) = Inr () \<and>
     (\<exists>ok. fst (read_from js (fst rw)) = Inr (RegisterOk ok))"

lemma register_one_ok_iff: "fst (register_one js name rw) = Inr u \<longleftrightarrow> answered_ok js name rw"
  by (auto simp: register_one_def answered_ok_def split: prod.splits sum.splits frame.splits)

lemma register_all_ok_iff:
  "fst (register_all js names streams) = Inr u \<longleftrightarrow>
     length names \<le> length streams \<and> (\<forall>(name, rw)\<in>set (zip names streams). answered_ok js name rw)"
proof (induction js names streams rule: register_all.induct)
  case (3 js name names rw streams)
  show ?case
  proof (cases "fst (register_one js name rw)")
    case (Inl e)
    then have "\<not> answered_ok js name rw"
      using register_one_ok_iff by (metis Inl_Inr_False)
    with Inl show ?thesis
      by (auto split: prod.splits)
  next
    case (Inr x)
    then obtain w where w: "register_one js name rw = (Inr (), w)"
      by (metis old.unit.exhaust prod.collapse)
    have "answered_ok js name rw"
      using register_one_ok_iff Inr by metis
    with w 3 [OF w [symmetric]] show ?thesis
      by (auto split: prod.splits)
  qed
qed simp_all

definition turn_registers :: "json_codec \<Rightarrow> registrant \<Rightarrow> reg_turn \<Rightarrow> bool" where
  "turn_registers js rg tn \<longleftrightarrow> fst (turn_outcome js rg tn) = Inr ()"

definition turn_panics :: "json_codec \<Rightarrow> registrant \<Rightarrow> reg_turn \<Rightarrow> bool" where
  "turn_panics js rg tn \<longleftrightarrow> (\<exists>e. fst (turn_outcome js rg tn) = Inl e \<and> unwinds e)"

lemma turn_cases:
  obtains "turn_registers js rg tn" "\<not> turn_panics js rg tn" "fst (turn_outcome js rg tn) = Inr ()"
  | e where "\<not> turn_registers js rg tn" "turn_panics js rg tn" "fst (turn_outcome js rg tn) = Inl e" "unwinds e"
  | e where "\<not> turn_registers js rg tn" "\<not> turn_panics js rg tn" "fst (turn_outcome js rg tn) = Inl e" "\<not> unwinds e"
  by (cases "fst (turn_outcome js rg tn)") (auto simp: turn_registers_def turn_panics_def)

text \<open>The turns that take place: all up to the first one that unwinds the task.\<close>

fun turns_run :: "json_codec \<Rightarrow> registrant \<Rightarrow> reg_turn list \<Rightarrow> reg_turn list" where
  "turns_run js rg [] = []"
| "turns_run js rg (tn # tns) = tn # (if turn_panics js rg tn then [] else turns_run js rg tns)"

lemma turns_run_all: "\<not> turn_panics js rg (last (turns_run js rg tns)) \<Longrightarrow> turns_run js rg tns = tns"
proof (induction tns)
  case (Cons tn tns)
  then show ?case
    by (cases tns) (auto split: if_splits)
qed simp

lemma unwinds_iff: "unwinds e \<longleftrightarrow> e = RegRead Panic \<or> e = RegHello (SubRead Panic)"
  by (cases e rule: unwinds.cases) simp_all

lemma turn_registers_answers:
  assumes "turn_registers js rg tn"
  shows "\<exists>first streams. tn_conn tn = Some (first # streams) \<and>
    length (rg_exposes rg @ rg_statics rg) \<le> length streams \<and>
    (\<forall>(name, rw)\<in>set (zip (rg_exposes rg @ rg_statics rg) streams). answered_ok js name rw)"
proof -
  obtain first streams where c: "tn_conn tn = Some (first # streams)"
    and "fst (register_all js (rg_exposes rg @ rg_statics rg) streams) = Inr ()"
    using assms
    by (auto simp: turn_registers_def turn_outcome_def register_with_server_def
        split: option.splits list.splits prod.splits sum.splits)
  then show ?thesis
    unfolding register_all_ok_iff by blast
qed

section \<open>What the status remembers\<close>

definition beats_sent :: "json_codec \<Rightarrow> reg_turn \<Rightarrow> int list" where
  "beats_sent js tn = map fst (takeWhile (\<lambda>(now, w). fst (write_to js Heartbeat w) = Inr ()) (tn_beats tn))"

lemma heartbeat_loop_status:
  "fst (heartbeat_loop js (tn_beats tn) rs) = fold record_heartbeat (beats_sent js tn) rs"
proof -
  have "fst (heartbeat_loop js beats rs) =
      fold record_heartbeat (map fst (takeWhile (\<lambda>(now, w). fst (write_to js Heartbeat w) = Inr ()) beats)) rs" for beats rs
    by (induction js beats rs rule: heartbeat_loop.induct) (auto split: prod.splits sum.splits)
  then show ?thesis
    by (simp add: beats_sent_def)
qed

text \<open>The last element of a list, or what was known before.\<close>

definition latest :: "'a option \<Rightarrow> 'a list \<Rightarrow> 'a option" where
  "latest old xs = (if xs = [] then old else Some (last xs))"

lemma latest_simps [simp]:
  "latest old [] = old" "latest old (xs @ [x]) = Some x" "latest (latest old xs) ys = latest old (xs @ ys)"
  by (simp_all add: latest_def)

lemma latest_one [simp]: "latest old [x] = Some x"
  by (simp add: latest_def)

lemma fold_record_heartbeat:
  "fold record_heartbeat ts rs =
     rs\<lparr>rs_control := (rs_control rs)\<lparr>last_heartbeat_at_ms := latest (last_heartbeat_at_ms (rs_control rs)) ts\<rparr>\<rparr>"
proof (induction ts arbitrary: rs)
  case (Cons t ts)
  then show ?case
    using latest_simps(3) [of "last_heartbeat_at_ms (rs_control rs)" "[t]" ts]
    by (simp add: record_heartbeat_def)
qed simp

definition status_after :: "json_codec \<Rightarrow> (register_failure \<Rightarrow> string) \<Rightarrow> registrant \<Rightarrow> reg_turn list \<Rightarrow> control_status \<Rightarrow> control_status" where
  "status_after js show_error rg tns cs =
     (if tns = [] then cs
      else \<lparr>co_state = (if turn_registers js rg (last tns) then Registered_state
              else if turn_panics js rg (last tns) then Registering else Reconnecting),
            last_registered_at_ms = latest (last_registered_at_ms cs) (map tn_done (filter (turn_registers js rg) tns)),
            last_heartbeat_at_ms = latest (last_heartbeat_at_ms cs) (concat (map (beats_sent js) (filter (turn_registers js rg) tns))),
            co_last_error = (case fst (turn_outcome js rg (last tns)) of
                Inl e \<Rightarrow> if unwinds e then None else Some (show_error e) | Inr _ \<Rightarrow> None)\<rparr>)"

lemma registration_turn_status:
  "snd (registration_turn js show_error rg tn rs) =
     rs\<lparr>rs_control := status_after js show_error rg [tn] (rs_control rs)\<rparr>"
  by (rule turn_cases [of js rg tn])
    (simp_all add: registration_turn_def status_after_def set_control_state_def Let_def
      heartbeat_loop_status fold_record_heartbeat)

lemma registration_turn_delay:
  "fst (registration_turn js show_error rg tn rs) =
     (if turn_registers js rg tn then Some 0 else if turn_panics js rg tn then None else Some RETRY_DELAY_SECS)"
  by (rule turn_cases [of js rg tn]) (simp_all add: registration_turn_def Let_def)

lemma status_after_append:
  "status_after js show_error rg tns' (status_after js show_error rg tns cs) =
     status_after js show_error rg (tns @ tns') cs"
  by (simp add: status_after_def)

lemma registration_task_run:
  "registration_task js show_error rg tns rs =
     (map (\<lambda>tn. if turn_registers js rg tn then Some 0 else if turn_panics js rg tn then None else Some RETRY_DELAY_SECS)
        (turns_run js rg tns),
      rs\<lparr>rs_control := status_after js show_error rg (turns_run js rg tns) (rs_control rs)\<rparr>)"
proof (induction tns arbitrary: rs)
  case Nil
  then show ?case by (simp add: status_after_def)
next
  case (Cons tn tns)
  let ?d = "if turn_registers js rg tn then Some 0 else if turn_panics js rg tn then None else Some RETRY_DELAY_SECS"
  have t: "registration_turn js show_error rg tn rs =
      (?d, rs\<lparr>rs_control := status_after js show_error rg [tn] (rs_control rs)\<rparr>)"
    using registration_turn_status registration_turn_delay by (metis prod.collapse)
  show ?case
    using Cons status_after_append [of js show_error rg "turns_run js rg tns" "[tn]" "rs_control rs"]
    by (cases rule: turn_cases [of js rg tn]) (simp_all add: t)
qed

section \<open>Properties\<close>

text \<open>
  C22. The status of the control plane tells the truth about the registration task, over any number
  of turns. It is \<open>Registered\<close> only if in the last turn every service of the client was acknowledged
  on a stream of its own, and \<open>Reconnecting\<close> with the error of the last turn when that failed. A
  frame of the server on which the decoder panics ends the task for good: no further turn takes
  place and the status stays at \<open>Registering\<close>, without an error. The recorded times are those of the
  last turn that succeeded and of the last heartbeat that was written; failed turns are five
  seconds apart; the consumers' records are not touched.
\<close>

theorem registration_status_truthful:
  assumes "registration_task js show_error rg tns rs = (delays, rs')" and "tns \<noteq> []"
    and "run = turns_run js rg tns"
  shows "(case fst (turn_outcome js rg (last run)) of
      Inr _ \<Rightarrow> co_state (rs_control rs') = Registered_state \<and> co_last_error (rs_control rs') = None \<and>
        (\<exists>first streams. tn_conn (last run) = Some (first # streams) \<and>
           length (rg_exposes rg @ rg_statics rg) \<le> length streams \<and>
           (\<forall>(name, rw)\<in>set (zip (rg_exposes rg @ rg_statics rg) streams). answered_ok js name rw))
    | Inl e \<Rightarrow>
        if e = RegRead Panic \<or> e = RegHello (SubRead Panic)
        then co_state (rs_control rs') = Registering \<and> co_last_error (rs_control rs') = None \<and> last delays = None
        else co_state (rs_control rs') = Reconnecting \<and> co_last_error (rs_control rs') = Some (show_error e) \<and>
          last delays = Some 5 \<and> run = tns) \<and>
    last_registered_at_ms (rs_control rs') =
      latest (last_registered_at_ms (rs_control rs)) (map tn_done (filter (turn_registers js rg) run)) \<and>
    last_heartbeat_at_ms (rs_control rs') =
      latest (last_heartbeat_at_ms (rs_control rs)) (concat (map (beats_sent js) (filter (turn_registers js rg) run))) \<and>
    rs_consumers rs' = rs_consumers rs \<and>
    delays = map (\<lambda>tn. if turn_registers js rg tn then Some 0 else if turn_panics js rg tn then None else Some 5) run"
proof -
  have rs': "rs' = rs\<lparr>rs_control := status_after js show_error rg run (rs_control rs)\<rparr>"
    and d: "delays = map (\<lambda>tn. if turn_registers js rg tn then Some 0 else if turn_panics js rg tn then None else Some 5) run"
    using assms(1) unfolding registration_task_run assms(3) RETRY_DELAY_SECS_def by simp_all
  have ne: "run \<noteq> []"
    using assms(2,3) by (cases tns) simp_all
  have all: "run = tns" if "\<not> turn_panics js rg (last run)"
    using that turns_run_all unfolding assms(3) by blast
  have "(case fst (turn_outcome js rg (last run)) of
      Inr _ \<Rightarrow> co_state (rs_control rs') = Registered_state \<and> co_last_error (rs_control rs') = None \<and>
        (\<exists>first streams. tn_conn (last run) = Some (first # streams) \<and>
           length (rg_exposes rg @ rg_statics rg) \<le> length streams \<and>
           (\<forall>(name, rw)\<in>set (zip (rg_exposes rg @ rg_statics rg) streams). answered_ok js name rw))
    | Inl e \<Rightarrow>
        if e = RegRead Panic \<or> e = RegHello (SubRead Panic)
        then co_state (rs_control rs') = Registering \<and> co_last_error (rs_control rs') = None \<and> last delays = None
        else co_state (rs_control rs') = Reconnecting \<and> co_last_error (rs_control rs') = Some (show_error e) \<and>
          last delays = Some 5 \<and> run = tns)"
    using ne turn_registers_answers [of js rg "last run"] all
    by (cases rule: turn_cases [of js rg "last run"])
      (auto simp: rs' d status_after_def last_map unwinds_iff split: sum.splits)
  then show ?thesis
    using ne d by (simp add: rs' status_after_def)
qed

definition demo_registrant :: registrant where
  "demo_registrant = \<lparr>rg_token = ''t'', rg_info = ''x'', rg_exposes = [''ssh''], rg_statics = []\<rparr>"

text \<open>A turn in which the server cannot be reached, and one with a heartbeat that passes and one that does not.\<close>

definition lost_turn :: reg_turn where
  "lost_turn = \<lparr>tn_start = 1, tn_conn = None, tn_done = 2, tn_beats = []\<rparr>"

definition good_turn :: reg_turn where
  "good_turn = \<lparr>tn_start = 7, tn_conn = Some (map client_end
       [sent marked_codec (HelloOk \<lparr>session_id = 3\<rparr>), sent marked_codec (registered_frame ''ssh'')]),
     tn_done = 8, tn_beats = [(68, idle_writer), (128, idle_writer\<lparr>w_budget := Some 2\<rparr>)]\<rparr>"

lemma demo_turns_ok:
  "turn_registers marked_codec demo_registrant good_turn" "\<not> turn_registers marked_codec demo_registrant lost_turn"
proof -
  have "registrable marked_codec ''ssh''"
    by (simp add: registrable_def sendable_marked)
  then show "turn_registers marked_codec demo_registrant good_turn"
    using register_all_answered [OF marked_codec_ok, of "[''ssh'']"]
    by (simp add: turn_registers_def turn_outcome_def good_turn_def demo_registrant_def register_with_server_def
        client_hello_accepted [OF marked_codec_ok] sendable_marked_ok
        sendable_marked_hello [of "''t''" "''x''", simplified])
  show "\<not> turn_registers marked_codec demo_registrant lost_turn"
    by (simp add: turn_registers_def turn_outcome_def lost_turn_def register_with_server_def)
qed

lemma good_turn_beats: "beats_sent marked_codec good_turn = [68]"
proof -
  have "fst (write_to marked_codec Heartbeat (idle_writer\<lparr>w_budget := Some 2\<rparr>)) \<noteq> Inr ()"
    by (simp add: write_to_def write_all_def frame_head_def idle_writer_def)
  then show ?thesis
    by (simp add: good_turn_def beats_sent_def write_idle sendable_heartbeat)
qed

text \<open>A turn in which the server answers with a frame on which the decoder panics.\<close>

definition poisoned_turn :: reg_turn where
  "poisoned_turn = \<lparr>tn_start = 200, tn_conn = Some [(\<lparr>r_in = frame_head DATA_OPEN 38 @ [0, 0, 255, 0] @ replicate 34 0,
     r_end = Eof\<rparr>, idle_writer)], tn_done = 201, tn_beats = []\<rparr>"

lemma poisoned_turn_panics: "turn_panics marked_codec demo_registrant poisoned_turn"
proof -
  let ?payload = "[0, 0, 255, 0] @ replicate 34 (0 :: u8)"
  have u16: "unat (u16_from_le_bytes 0 0) = 0" "unat (u16_from_le_bytes 255 0) = 255"
    by (simp_all add: u16_from_le_bytes_def)
  have lens: "svc_len ?payload = 0" "prov_len ?payload = 255"
    using u16 by (simp_all add: svc_len_def prov_len_def)
  have "decode marked_codec DATA_OPEN ?payload = Inl Panic"
    unfolding decode_panic_iff service_accepted_def provider_past_end_def lens by simp
  then have "fst (read_from marked_codec \<lparr>r_in = frame_head DATA_OPEN 38 @ ?payload, r_end = Eof\<rparr>) = Inl Panic"
    using read_from_head [of ?payload marked_codec DATA_OPEN "[]" Eof] by (simp add: MAX_FRAME_PAYLOAD_def)
  moreover have "sendable marked_codec (Hello \<lparr>group_token = ''t'', client_info = ''x''\<rparr>)"
    using sendable_marked_hello [of "''t''" "''x''"] by simp
  ultimately have "fst (turn_outcome marked_codec demo_registrant poisoned_turn) = Inl (RegHello (SubRead Panic))"
    by (simp add: turn_outcome_def poisoned_turn_def demo_registrant_def register_with_server_def client_hello_def write_idle)
  then show ?thesis
    by (simp add: turn_panics_def)
qed

lemma demo_turns_calm:
  "\<not> turn_panics marked_codec demo_registrant good_turn" "\<not> turn_panics marked_codec demo_registrant lost_turn"
  using demo_turns_ok(1)
  by (auto simp: turn_registers_def turn_panics_def turn_outcome_def lost_turn_def register_with_server_def)

theorem registration_status_truthful_witness:
  "\<exists>delays rs'. registration_task marked_codec (\<lambda>_. ''error'') demo_registrant
      [lost_turn, good_turn, poisoned_turn, good_turn] (new_status []) = (delays, rs') \<and>
    delays = [Some 5, Some 0, None] \<and>
    last_registered_at_ms (rs_control rs') = Some 8 \<and> last_heartbeat_at_ms (rs_control rs') = Some 68"
proof -
  let ?tns = "[lost_turn, good_turn, poisoned_turn, good_turn]"
  obtain delays rs' where r: "registration_task marked_codec (\<lambda>_. ''error'') demo_registrant ?tns (new_status []) =
      (delays, rs')" by fastforce
  have "\<not> turn_registers marked_codec demo_registrant poisoned_turn"
    using poisoned_turn_panics by (auto simp: turn_registers_def turn_panics_def)
  moreover have "tn_done good_turn = 8"
    by (simp add: good_turn_def)
  ultimately show ?thesis
    using registration_status_truthful [OF r _ refl] r
    by (simp add: demo_turns_ok demo_turns_calm poisoned_turn_panics good_turn_beats)
qed

end
