(* ===== verification/Keepalive.thy ===== *)
theory Keepalive
  imports Server_Main Registration
begin

text \<open>
  Heartbeats against the sweeper: what the control connection of one client and the task of
  \<open>sweep_dead_sessions\<close> do to the registry over time, as a sequence of heartbeats that arrive and
  sweeps that run. The client sends a heartbeat every \<open>CLIENT_HEARTBEAT_INTERVAL\<close>; a sweep compares
  the last one with the server's timeout.
\<close>

datatype tick = Beat int int | Sweep int

definition tick_step :: "int \<Rightarrow> string \<Rightarrow> 'id \<Rightarrow> tick \<Rightarrow> 'id server_state \<Rightarrow> 'id server_state" where
  "tick_step timeout n c tk st =
     (case tk of
        Beat now0 now \<Rightarrow> with_group n (touch_session now0 now c) st
      | Sweep now \<Rightarrow> sweep_dead_sessions now timeout st)"

text \<open>The last heartbeat that the registry holds of a client.\<close>

definition last_seen :: "'id server_state \<Rightarrow> string \<Rightarrow> 'id \<Rightarrow> int option" where
  "last_seen st n c =
     (case group_of st n of None \<Rightarrow> None | Some g \<Rightarrow> map_option last_heartbeat (hm_get (sessions g) c))"

text \<open>No sweep runs more than \<open>timeout\<close> after the heartbeat before it.\<close>

fun punctual :: "int \<Rightarrow> int \<Rightarrow> tick list \<Rightarrow> bool" where
  "punctual timeout seen [] = True"
| "punctual timeout seen (Beat now0 now # tks) = punctual timeout now tks"
| "punctual timeout seen (Sweep now # tks) = (now \<le> seen + timeout \<and> punctual timeout seen tks)"

section \<open>One tick\<close>

lemma last_seen_session: "last_seen st n c \<noteq> None \<longleftrightarrow> session_in st n c"
  by (simp add: last_seen_def session_in_def has_session_def split: option.splits)

lemma last_seen_beat:
  "group_of st n \<noteq> None \<Longrightarrow> last_seen (with_group n (touch_session a b c) st) n c = Some b"
  by (auto simp: last_seen_def group_of_with_group touch_session_def Let_def hm_get_insert split: option.splits)

lemma lookup_service_beat [simp]:
  "lookup_service (with_group n (touch_session a b c) st) m s = lookup_service st m s"
  by (simp add: lookup_service_def group_of_with_group split: option.splits)

lemma sweep_group_of:
  assumes "registry_wf st" and "group_of st n = Some g"
  shows "group_of (sweep_dead_sessions now timeout st) n =
    Some (if services g = [] then g else sweep_group (now - timeout) g)"
  using sweep_fold [OF assms(1), of "now - timeout" "dump_services st" n] dumped_group_iff [OF assms] assms(2)
  by (simp add: sweep_dead_sessions_def Let_def)

lemma sweep_keeps_punctual:
  assumes "registry_wf st" and "last_seen st n c = Some t" and "now \<le> t + timeout"
  shows "last_seen (sweep_dead_sessions now timeout st) n c = Some t"
    and "lookup_service st n s = Some c \<Longrightarrow> lookup_service (sweep_dead_sessions now timeout st) n s = Some c"
proof -
  obtain g where g: "group_of st n = Some g" and s: "map_option last_heartbeat (hm_get (sessions g) c) = Some t"
    using assms(2) by (auto simp: last_seen_def split: option.splits)
  have wf: "group_wf g" using registry_wf_group [OF assms(1) g] by simp
  have alive: "\<not> expired (now - timeout) g c"
    using s assms(3) by (auto simp: expired_def)
  note after = sweep_group_of [OF assms(1) g, of now timeout]
  show "last_seen (sweep_dead_sessions now timeout st) n c = Some t"
    using s alive by (simp add: last_seen_def after sessions_sweep [OF wf])
  show "lookup_service (sweep_dead_sessions now timeout st) n s = Some c" if "lookup_service st n s = Some c"
    using that alive by (simp add: lookup_service_def after g group_lookup_sweep [OF wf])
qed

lemma sweep_drops_late:
  assumes "registry_wf st" and "last_seen st n c = Some t" and "t + timeout < now"
  shows "lookup_service (sweep_dead_sessions now timeout st) n s \<noteq> Some c"
proof -
  obtain g where g: "group_of st n = Some g" and h: "map_option last_heartbeat (hm_get (sessions g) c) = Some t"
    using assms(2) by (auto simp: last_seen_def split: option.splits)
  have wf: "group_wf g" using registry_wf_group [OF assms(1) g] by simp
  have "expired (now - timeout) g c"
    using h assms(3) by (auto simp: expired_def)
  then show ?thesis
    by (simp add: lookup_service_def sweep_group_of [OF assms(1) g] group_lookup_sweep [OF wf])
      (simp add: group_lookup_def)
qed

lemma tick_step_wf: "registry_wf st \<Longrightarrow> registry_wf (tick_step timeout n c tk st)"
  by (cases tk) (simp_all add: tick_step_def touch_session_exec registry_wf_exec registry_wf_sweep)

lemma tick_step_lookup:
  assumes "registry_wf st" and "lookup_service (tick_step timeout n c tk st) n s = Some p"
  shows "lookup_service st n s = Some p"
proof (cases tk)
  case (Beat a b)
  with assms show ?thesis
    by (simp add: tick_step_def)
next
  case (Sweep now)
  have "group_of st n \<noteq> None"
    using assms(2) Sweep sweep_fold [OF assms(1), of "now - timeout" "dump_services st" n]
    by (auto simp: tick_step_def sweep_dead_sessions_def Let_def lookup_service_def split: if_splits option.splits)
  then obtain g where g: "group_of st n = Some g" by blast
  then have "group_wf g" using registry_wf_group [OF assms(1)] by simp
  with assms(2) Sweep g show ?thesis
    by (auto simp: tick_step_def lookup_service_def sweep_group_of [OF assms(1) g] group_lookup_sweep split: if_splits)
qed

section \<open>Any number of ticks\<close>

lemma ticks_lookup:
  assumes "registry_wf st" and "lookup_service (fold (tick_step timeout n c) tks st) n s = Some p"
  shows "lookup_service st n s = Some p"
  using assms
  by (induction tks arbitrary: st) (auto dest: tick_step_lookup intro: tick_step_wf)

lemma ticks_punctual:
  assumes "registry_wf st" and "last_seen st n c = Some t" and "punctual timeout t tks"
  shows "last_seen (fold (tick_step timeout n c) tks st) n c \<noteq> None \<and>
    (\<forall>s. lookup_service st n s = Some c \<longrightarrow> lookup_service (fold (tick_step timeout n c) tks st) n s = Some c)"
  using assms
proof (induction tks arbitrary: st t)
  case Nil
  then show ?case by simp
next
  case (Cons tk tks)
  let ?st = "tick_step timeout n c tk st"
  have wf: "registry_wf ?st" by (intro tick_step_wf Cons.prems)
  show ?case
  proof (cases tk)
    case (Beat a b)
    have "group_of st n \<noteq> None"
      using Cons.prems(2) by (auto simp: last_seen_def split: option.splits)
    then have "last_seen ?st n c = Some b"
      by (simp add: tick_step_def Beat last_seen_beat)
    moreover have "lookup_service ?st n s = lookup_service st n s" for s
      by (simp add: tick_step_def Beat)
    ultimately show ?thesis
      using Cons.IH [OF wf, of b] Cons.prems(3) Beat by simp
  next
    case (Sweep now)
    then have le: "now \<le> t + timeout" "punctual timeout t tks" using Cons.prems(3) by auto
    have st: "?st = sweep_dead_sessions now timeout st" by (simp add: tick_step_def Sweep)
    show ?thesis
      using Cons.IH [OF wf _ le(2)] sweep_keeps_punctual [OF Cons.prems(1,2) le(1)]
      unfolding st [symmetric] by simp
  qed
qed

section \<open>Timing\<close>

fun tick_time :: "tick \<Rightarrow> int" where
  "tick_time (Beat now0 now) = now"
| "tick_time (Sweep now) = now"

fun beats :: "tick list \<Rightarrow> int list" where
  "beats [] = []"
| "beats (Beat now0 now # tks) = now # beats tks"
| "beats (Sweep now # tks) = beats tks"

text \<open>Every element is at most \<open>gap\<close> after the one before it, the first at most \<open>gap\<close> after \<open>t\<close>.\<close>

fun within_gap :: "int \<Rightarrow> int \<Rightarrow> int list \<Rightarrow> bool" where
  "within_gap gap t [] = True"
| "within_gap gap t (b # bs) = (b \<le> t + gap \<and> within_gap gap b bs)"

text \<open>The ticks happen in the order of time, from \<open>t\<close> on.\<close>

definition in_order :: "int \<Rightarrow> tick list \<Rightarrow> bool" where
  "in_order t tks \<longleftrightarrow> sorted (t # map tick_time tks)"

lemma set_beats: "set (beats tks) \<subseteq> tick_time ` set tks"
  by (induction tks rule: beats.induct) auto

lemma within_gap_first_beat:
  assumes "in_order t (tk # tks)" and "within_gap gap t (beats tks)" and "beats tks \<noteq> []"
  shows "tick_time tk \<le> t + gap"
proof -
  have "hd (beats tks) \<in> tick_time ` set tks"
    using set_beats hd_in_set [OF assms(3)] by blast
  then have "tick_time tk \<le> hd (beats tks)"
    using assms(1) by (auto simp: in_order_def)
  moreover have "hd (beats tks) \<le> t + gap"
    using assms(2,3) by (cases "beats tks") auto
  ultimately show ?thesis by simp
qed

lemma regular_beats_punctual:
  assumes "in_order t tks" and "within_gap gap t (beats tks)"
    and "\<forall>tk\<in>set tks. tick_time tk \<le> last (t # beats tks) + gap"
  shows "punctual gap t tks"
  using assms
proof (induction tks arbitrary: t)
  case (Cons tk tks)
  show ?case
  proof (cases tk)
    case (Beat a b)
    with Cons.prems have "in_order b tks" "within_gap gap b (beats tks)"
      "\<forall>tk\<in>set tks. tick_time tk \<le> last (b # beats tks) + gap"
      by (auto simp: in_order_def)
    with Cons.IH Beat show ?thesis by simp
  next
    case (Sweep now)
    have "now \<le> t + gap"
    proof (cases "beats tks = []")
      case True
      with Cons.prems(3) Sweep show ?thesis by simp
    next
      case False
      with within_gap_first_beat [OF Cons.prems(1)] Cons.prems(2) Sweep show ?thesis by simp
    qed
    moreover have "punctual gap t tks"
      using Cons Sweep by (auto simp: in_order_def)
    ultimately show ?thesis using Sweep by simp
  qed
qed simp

text \<open>
  Heartbeats that are sent at the given times arrive with a delay of at most \<open>latency\<close>; then the
  arrivals are at most \<open>gap + latency\<close> apart when the sendings are at most \<open>gap\<close> apart.
\<close>

definition delivered :: "int \<Rightarrow> int list \<Rightarrow> int list \<Rightarrow> bool" where
  "delivered latency sends arrivals \<longleftrightarrow> list_all2 (\<lambda>s a. s \<le> a \<and> a \<le> s + latency) sends arrivals"

lemma arrivals_within_gap:
  assumes "delivered latency sends arrivals" and "within_gap gap s sends" and "s \<le> t"
  shows "within_gap (gap + latency) t arrivals"
  using assms unfolding delivered_def
  by (induction sends arrivals arbitrary: s t rule: list_all2_induct) fastforce+

lemma within_gap_mono: "within_gap gap t bs \<Longrightarrow> gap \<le> gap' \<Longrightarrow> within_gap gap' t bs"
  by (induction gap t bs rule: within_gap.induct) auto

lemma default_timeout:
  "heartbeat cfg = heartbeat_config_default \<Longrightarrow> heartbeat_timeout (control_config_of sec cfg) = 90 * sec"
  by (simp add: control_config_of_def heartbeat_config_default_def)

lemma silent_client_swept:
  assumes "registry_wf st" and "last_seen st n c = Some t" and "within_gap period u ws"
    and "u \<le> t + timeout" and "t + timeout < last (u # ws)"
  shows "\<exists>k<length ws. ws ! k \<le> t + timeout + period \<and>
    (\<forall>s. lookup_service (fold (tick_step timeout n c) (map Sweep (take (Suc k) ws)) st) n s \<noteq> Some c)"
  using assms
proof (induction ws arbitrary: st u)
  case (Cons w ws)
  let ?st = "tick_step timeout n c (Sweep w) st"
  show ?case
  proof (cases "w \<le> t + timeout")
    case True
    then have "last_seen ?st n c = Some t"
      using sweep_keeps_punctual(1) [OF Cons.prems(1,2)] by (simp add: tick_step_def)
    then obtain k where "k < length ws" "ws ! k \<le> t + timeout + period"
      "\<forall>s. lookup_service (fold (tick_step timeout n c) (map Sweep (take (Suc k) ws)) ?st) n s \<noteq> Some c"
      using Cons.IH [where u = w, OF tick_step_wf [OF Cons.prems(1), of timeout n c "Sweep w"]] Cons.prems(3,5) True
      by (auto split: if_splits)
    then show ?thesis
      by (intro exI [of _ "Suc k"]) simp
  next
    case False
    with Cons.prems sweep_drops_late [OF Cons.prems(1,2), of timeout w] show ?thesis
      by (intro exI [of _ 0]) (auto simp: tick_step_def)
  qed
qed simp

text \<open>A stream on which the peer sends a heartbeat is served as one tick.\<close>

lemma heartbeat_stream_is_beat:
  assumes "fst (read_from js (bs_reader bs)) = Inr Heartbeat"
  shows "serve_stream js ir n c bs st =
    (Continue, tick_step timeout n c (Beat (bs_now0 bs) (bs_now bs)) st, bs_writer bs)"
  using assms by (simp add: serve_stream_def tick_step_def)

section \<open>Properties\<close>

text \<open>
  C19. With the default timeout a healthy client is never swept. The client sends a heartbeat at
  most \<open>slack\<close> later than its interval of 60 seconds after the one before; each arrives within
  \<open>latency\<close>; slack and latency together are at most 30 seconds. Then over any sequence of sweeps,
  whenever they run, the client keeps its session and every service it provides, until the
  heartbeats stop for longer than the timeout.
\<close>

theorem default_timing_keeps_client:
  assumes "registry_wf st" and "last_seen st n c = Some t"
    and "heartbeat cfg = heartbeat_config_default" and "timeout = heartbeat_timeout (control_config_of sec cfg)"
    and "within_gap (int CLIENT_HEARTBEAT_INTERVAL * sec + slack) s sends" and "s \<le> t"
    and "delivered latency sends (beats tks)" and "slack + latency \<le> 30 * sec"
    and "in_order t tks" and "\<forall>tk\<in>set tks. tick_time tk \<le> last (t # beats tks) + timeout"
  shows "session_in (fold (tick_step timeout n c) tks st) n c \<and>
    (\<forall>sv. lookup_service st n sv = Some c \<longrightarrow> lookup_service (fold (tick_step timeout n c) tks st) n sv = Some c)"
proof -
  have gap: "int CLIENT_HEARTBEAT_INTERVAL * sec + slack + latency \<le> timeout"
    using assms(3,4,8) by (simp add: default_timeout CLIENT_HEARTBEAT_INTERVAL_def)
  have "within_gap (int CLIENT_HEARTBEAT_INTERVAL * sec + slack + latency) t (beats tks)"
    using arrivals_within_gap [OF assms(7,5,6)] .
  then have "within_gap timeout t (beats tks)"
    using gap by (rule within_gap_mono)
  then have "punctual timeout t tks"
    using assms(9,10) by (intro regular_beats_punctual)
  then show ?thesis
    using ticks_punctual [OF assms(1,2)] unfolding last_seen_session by blast
qed

theorem default_timing_keeps_client_witness:
  "lookup_service (fold (tick_step 90 ''a'' 7) [Beat 66 66, Sweep 90, Beat 130 130, Sweep 180, Sweep 210] demo_state)
     ''a'' ''ssh'' = Some 7"
proof -
  have t: "last_seen demo_state ''a'' 7 = Some 5"
    by (simp add: last_seen_def demo_state_group_a)
  have l: "lookup_service demo_state ''a'' ''ssh'' = Some 7"
    by (simp add: lookup_service_def demo_state_group_a group_lookup_def)
  have h: "heartbeat root_config_default = heartbeat_config_default"
    by (simp add: root_config_default_def)
  have d: "90 = heartbeat_timeout (control_config_of 1 root_config_default)"
    using default_timeout [OF h] by simp
  have g: "within_gap (int CLIENT_HEARTBEAT_INTERVAL * 1 + 5) 4 [65, 128]" "(4 :: int) \<le> 5"
    "delivered 20 [65, 128] (beats [Beat 66 66, Sweep 90, Beat 130 130, Sweep 180, Sweep 210])" "(5 :: int) + 20 \<le> 30 * 1"
    "in_order 5 [Beat 66 66, Sweep 90, Beat 130 130, Sweep 180, Sweep 210]"
    "\<forall>tk\<in>set [Beat 66 66, Sweep 90, Beat 130 130, Sweep 180, Sweep 210].
       tick_time tk \<le> last (5 # beats [Beat 66 66, Sweep 90, Beat 130 130, Sweep 180, Sweep 210]) + 90"
    by (simp_all add: CLIENT_HEARTBEAT_INTERVAL_def delivered_def in_order_def)
  show ?thesis
    using default_timing_keeps_client [OF demo_state_wf t h d g] l by blast
qed

text \<open>
  C20. A client that falls silent is gone soon: when its last heartbeat arrived at \<open>t\<close> and the
  sweeper runs at least every \<open>period\<close> (it sleeps for the timeout between two runs), then by the
  time \<open>t + timeout + period\<close> a sweep has run after which none of its services resolves to it, and
  no later heartbeat or sweep brings one back.
\<close>

theorem silent_client_leaves_in_time:
  assumes "registry_wf st" and "last_seen st n c = Some t" and "within_gap period u ws"
    and "u \<le> t + timeout" and "t + timeout < last (u # ws)"
  shows "\<exists>k<length ws. ws ! k \<le> t + timeout + period \<and>
    (\<forall>tks s. lookup_service (fold (tick_step timeout n c) (map Sweep (take (Suc k) ws) @ tks) st) n s \<noteq> Some c)"
proof -
  have wf: "registry_wf (fold (tick_step timeout n c) tks st)" for tks
    using assms(1) by (induction tks arbitrary: st) (simp_all add: tick_step_wf)
  obtain k where k: "k < length ws" "ws ! k \<le> t + timeout + period"
    "\<forall>s. lookup_service (fold (tick_step timeout n c) (map Sweep (take (Suc k) ws)) st) n s \<noteq> Some c"
    using silent_client_swept [OF assms] by blast
  moreover have "lookup_service (fold (tick_step timeout n c) (map Sweep (take (Suc k) ws) @ tks) st) n s \<noteq> Some c" for tks s
    unfolding fold_append comp_apply using k(3) ticks_lookup [OF wf] by blast
  ultimately show ?thesis by blast
qed

theorem silent_client_leaves_in_time_witness:
  "\<exists>k<length [90, 181, 272 :: int]. [90, 181, 272 :: int] ! k \<le> 5 + 90 + 91 \<and>
    (\<forall>tks s. lookup_service (fold (tick_step 90 ''a'' 7) (map Sweep (take (Suc k) [90, 181, 272]) @ tks) demo_state)
       ''a'' s \<noteq> Some 7)"
  by (rule silent_client_leaves_in_time [OF demo_state_wf, where u = 0])
    (simp_all add: last_seen_def demo_state_group_a)

text \<open>
  C21. A client that was late once does not come back by its heartbeats: when a sweep runs more
  than the timeout after the last heartbeat, the client's services are dropped although its
  connection is still open, and no later heartbeat restores them. The next heartbeat gives the
  client a session again, without services.
\<close>

theorem late_heartbeat_loses_services:
  assumes "registry_wf st" and "last_seen st n c = Some t" and "t + timeout < now"
  shows "session_in (fold (tick_step timeout n c) [Sweep now, Beat now0 now1] st) n c \<and>
    (\<forall>s. lookup_service (fold (tick_step timeout n c) (Sweep now # tks) st) n s \<noteq> Some c)"
proof -
  let ?st = "sweep_dead_sessions now timeout st"
  have wf: "registry_wf ?st" by (intro inv_intros assms)
  have "group_of st n \<noteq> None"
    using assms(2) by (auto simp: last_seen_def split: option.splits)
  then have "group_of ?st n \<noteq> None"
    using sweep_group_of [OF assms(1)] by fastforce
  then have "last_seen (with_group n (touch_session now0 now1 c) ?st) n c = Some now1"
    by (rule last_seen_beat)
  then have "session_in (with_group n (touch_session now0 now1 c) ?st) n c"
    unfolding last_seen_session [symmetric] by simp
  moreover have "lookup_service (fold (tick_step timeout n c) tks ?st) n s \<noteq> Some c" for s
    using ticks_lookup [OF wf] sweep_drops_late [OF assms] by blast
  ultimately show ?thesis
    by (simp add: tick_step_def)
qed

theorem late_heartbeat_loses_services_witness:
  "lookup_service demo_state ''a'' ''ssh'' = Some 7 \<and>
   lookup_service (fold (tick_step 30 ''a'' 7) [Sweep 60, Beat 65 65, Beat 125 125] demo_state) ''a'' ''ssh'' \<noteq> Some 7"
proof -
  have t: "last_seen demo_state ''a'' 7 = Some 5"
    by (simp add: last_seen_def demo_state_group_a)
  have l: "(5 :: int) + 30 < 60" by simp
  have "lookup_service demo_state ''a'' ''ssh'' = Some 7"
    by (simp add: lookup_service_def demo_state_group_a group_lookup_def)
  then show ?thesis
    using late_heartbeat_loses_services [OF demo_state_wf t l, of 0 0 "[Beat 65 65, Beat 125 125]"] by blast
qed

end
