(* ===== verification/Consumer_System.thy ===== *)
theory Consumer_System
  imports Consume Tunnel
begin

text \<open>
  \<open>run\<close> and \<open>forward_one\<close> of \<^verbatim>\<open>crates/client/src/consume.rs\<close>: the listener of one consumed service
  spawns a task for every local connection, and all these tasks share the cached provider and the
  status. \<open>forward_one\<close> is one task from start to end, without others; \<open>task_step\<close> is any number of
  tasks, interleaved between any two of their \<open>await\<close> points. \<open>Consume.dial_loop\<close> is one way in which
  a single task can go (\<open>dial_loop_simulated\<close>).
\<close>

section \<open>One task alone\<close>

datatype forward_end = ForwardNoProvider subscribe_error | ForwardFailed io_error | Forwarded bridge_stats | ForwardUnwound

definition bridge_end :: "io_error + bridge_stats \<Rightarrow> forward_end" where
  "bridge_end r = (case r of Inl e \<Rightarrow> ForwardFailed e | Inr st \<Rightarrow> Forwarded st)"

text \<open>The result is \<open>None\<close> while the retry loop has not ended; the second one is the local socket.\<close>

definition forward_one ::
  "printers \<Rightarrow> reconnect_config \<Rightarrow> string \<Rightarrow> copier \<Rightarrow> int \<Rightarrow> ('id, reader \<times> writer) attempt list \<Rightarrow> duplex \<Rightarrow> 'id consumer
     \<Rightarrow> forward_end option \<times> duplex \<times> 'id consumer" where
  "forward_one pr rc name copy now attempts tcp cm =
     (case dial_stream pr rc name now attempts cm of
        (NoProviderKnown e, cm', _) \<Rightarrow> (Some (ForwardNoProvider e), tcp, cm')
      | (Unwound, cm', _) \<Rightarrow> (Some ForwardUnwound, tcp, cm')
      | (StillTrying, cm', _) \<Rightarrow> (None, tcp, cm')
      | (Connected mode (r, w), cm', _) \<Rightarrow>
          (case bridge_duplex copy tcp (bistream_new r w) of
             (res, tcp', s') \<Rightarrow> (Some (bridge_end res), tcp', cm')))"

section \<open>Tasks\<close>

text \<open>
  Where a task is: just spawned; at the top of the retry loop with its next delay; waiting for the
  server's answer; dialling a provider directly or through the relay; asleep; bridging; done.
\<close>

datatype ('id, 'x) task =
    Spawned
  | Resolving u64
  | Asking u64
  | Direct u64 'id
  | Relaying u64 'id
  | Sleeping u64
  | Bridging string 'id 'x
  | Done forward_end

record ('id, 'x) consumer_system =
  sys_shared :: "'id consumer"
  sys_tasks :: "('id, 'x) task list"
  sys_answers :: "'id list"

text \<open>\<open>sys_answers\<close> collects what the server has answered so far; the code has no such variable.\<close>

definition dial_first :: "reconnect_config \<Rightarrow> u64 \<Rightarrow> 'id \<Rightarrow> ('id, 'x) task" where
  "dial_first rc b p = (if prefer_direct rc then Direct b p else Relaying b p)"

text \<open>
  One step of one task: its state, the shared state and the answers before and after. An \<open>accept\<close>
  that fails on the listener changes nothing. A task that reads a frame on which the decoder panics
  is gone, with the shared state as it was.
\<close>

inductive task_move ::
  "printers \<Rightarrow> reconnect_config \<Rightarrow> string \<Rightarrow> ('id, 'x) task \<Rightarrow> 'id consumer \<Rightarrow> 'id option
     \<Rightarrow> ('id, 'x) task \<Rightarrow> 'id consumer \<Rightarrow> bool" for pr rc name where
  start: "task_move pr rc name Spawned cm None
     (Resolving (initial_backoff_ms rc)) (set_consumer now name Dialing None None cm)"
| cached: "cm_cached cm = Some p \<Longrightarrow> task_move pr rc name (Resolving b) cm None (dial_first rc b p) cm"
| ask: "cm_cached cm = None \<Longrightarrow> task_move pr rc name (Resolving b) cm None (Asking b) cm"
| answered: "task_move pr rc name (Asking b) cm (Some p) (dial_first rc b p) (cm\<lparr>cm_cached := Some p\<rparr>)"
| refused: "\<not> subscribe_panics e \<Longrightarrow> task_move pr rc name (Asking b) cm None (Done (ForwardNoProvider e)) cm"
| direct_ok: "task_move pr rc name (Direct b p) cm None (Bridging ''direct'' p x)
     (set_consumer now name Live (Some ''direct'') None cm)"
| direct_fails: "\<not> dial_panics e \<Longrightarrow> task_move pr rc name (Direct b p) cm None (Relaying b p) (after_direct_error pr e cm)"
| relay_ok: "task_move pr rc name (Relaying b p) cm None (Bridging ''relay'' p x)
     (set_consumer now name Live (Some ''relay'') None cm)"
| relay_fails: "\<not> dial_panics e \<Longrightarrow> task_move pr rc name (Relaying b p) cm None (Sleeping b)
     (set_consumer now name Failed None (Some (relay_message pr e)) cm)"
| wake: "task_move pr rc name (Sleeping b) cm None (Resolving (next_backoff rc b)) cm"
| bridged: "task_move pr rc name (Bridging mode p x) cm None (Done (bridge_end res)) cm"
| asking_unwinds: "task_move pr rc name (Asking b) cm None (Done ForwardUnwound) cm"
| direct_unwinds: "task_move pr rc name (Direct b p) cm None (Done ForwardUnwound) cm"
| relay_unwinds: "task_move pr rc name (Relaying b p) cm None (Done ForwardUnwound) cm"

inductive_cases task_moveE: "task_move pr rc name t cm ans t' cm'"

inductive task_step ::
  "printers \<Rightarrow> reconnect_config \<Rightarrow> string \<Rightarrow> ('id, 'x) consumer_system \<Rightarrow> ('id, 'x) consumer_system \<Rightarrow> bool" for pr rc name where
  accept: "task_step pr rc name sy (sy\<lparr>sys_tasks := sys_tasks sy @ [Spawned]\<rparr>)"
| move: "i < length (sys_tasks sy) \<Longrightarrow>
     task_move pr rc name (sys_tasks sy ! i) (sys_shared sy) ans t' cm' \<Longrightarrow>
     task_step pr rc name sy \<lparr>sys_shared = cm', sys_tasks = (sys_tasks sy)[i := t'],
       sys_answers = (case ans of None \<Rightarrow> sys_answers sy | Some p \<Rightarrow> sys_answers sy @ [p])\<rparr>"

text \<open>The listener is bound first; when that fails, no task is ever spawned.\<close>

definition consumer_start :: "bool \<Rightarrow> string list \<Rightarrow> ('id, 'x) consumer_system option" where
  "consumer_start bound names =
     (if bound then Some \<lparr>sys_shared = \<lparr>cm_cached = None, cm_status = new_status names\<rparr>, sys_tasks = [], sys_answers = []\<rparr>
      else None)"

section \<open>The invariant\<close>

fun task_provider :: "('id, 'x) task \<Rightarrow> 'id option" where
  "task_provider (Direct b p) = Some p"
| "task_provider (Relaying b p) = Some p"
| "task_provider (Bridging mode p x) = Some p"
| "task_provider t = None"

fun task_backoff :: "('id, 'x) task \<Rightarrow> u64 option" where
  "task_backoff (Resolving b) = Some b"
| "task_backoff (Asking b) = Some b"
| "task_backoff (Direct b p) = Some b"
| "task_backoff (Relaying b p) = Some b"
| "task_backoff (Sleeping b) = Some b"
| "task_backoff t = None"

text \<open>A task that has been given a stream.\<close>

fun carried :: "('id, 'x) task \<Rightarrow> bool" where
  "carried (Bridging mode p x) = True"
| "carried (Done (Forwarded st)) = True"
| "carried (Done (ForwardFailed e)) = True"
| "carried t = False"

definition streams_recorded :: "string \<Rightarrow> 'id consumer \<Rightarrow> nat" where
  "streams_recorded name cm =
     (case hm_get (rs_consumers (cm_status cm)) name of None \<Rightarrow> 0 | Some e \<Rightarrow> unat (forwarded_streams e))"

definition consumer_inv :: "reconnect_config \<Rightarrow> string \<Rightarrow> ('id, 'x) consumer_system \<Rightarrow> bool" where
  "consumer_inv rc name sy \<longleftrightarrow>
     set_option (cm_cached (sys_shared sy)) \<subseteq> set (sys_answers sy) \<and>
     (\<forall>t\<in>set (sys_tasks sy). set_option (task_provider t) \<subseteq> set (sys_answers sy) \<and>
        (\<forall>b\<in>set_option (task_backoff t). \<exists>k. b = (next_backoff rc ^^ k) (initial_backoff_ms rc))) \<and>
     streams_recorded name (sys_shared sy) = min (length (filter carried (sys_tasks sy))) (2 ^ 64 - 1)"

lemma dial_first_simps [simp]:
  "task_provider (dial_first rc b p) = Some p" "task_backoff (dial_first rc b p) = Some b" "\<not> carried (dial_first rc b p)"
  by (simp_all add: dial_first_def)

lemma carried_bridge_end [simp]: "carried (Done (bridge_end res))"
  by (cases res) (simp_all add: bridge_end_def)

lemma streams_recorded_set [simp]:
  "streams_recorded name (set_consumer now name phase mode err cm) =
     (if phase = Live then min (streams_recorded name cm + 1) (2 ^ 64 - 1) else streams_recorded name cm)"
  by (auto simp: streams_recorded_def set_consumer_def set_consumer_state_def Let_def hm_get_insert
      saturating_add_unat consumer_status_default_def split: option.splits)

lemma after_direct_error_simps [simp]:
  "streams_recorded name (after_direct_error pr e cm) = streams_recorded name cm"
  "set_option (cm_cached (after_direct_error pr e cm)) \<subseteq> set_option (cm_cached cm)"
  by (auto simp: after_direct_error_def invalidate_provider_cache_def streams_recorded_def)

lemma streams_recorded_cached [simp]: "streams_recorded name (cm\<lparr>cm_cached := p\<rparr>) = streams_recorded name cm"
  by (simp add: streams_recorded_def)

text \<open>What one move does, in the terms of the invariant.\<close>

lemma task_move_cached:
  "task_move pr rc name t cm ans t' cm' \<Longrightarrow>
   set_option (cm_cached cm') \<subseteq> set_option (cm_cached cm) \<union> set_option ans"
  by (induction rule: task_move.induct) (simp_all add: after_direct_error_def invalidate_provider_cache_def)

lemma task_move_provider:
  "task_move pr rc name t cm ans t' cm' \<Longrightarrow>
   set_option (task_provider t') \<subseteq> set_option (task_provider t) \<union> set_option (cm_cached cm) \<union> set_option ans"
  by (induction rule: task_move.induct) simp_all

lemma task_move_backoff:
  "task_move pr rc name t cm ans t' cm' \<Longrightarrow> b' \<in> set_option (task_backoff t') \<Longrightarrow>
   b' \<in> set_option (task_backoff t) \<or> b' = initial_backoff_ms rc \<or> (\<exists>b\<in>set_option (task_backoff t). b' = next_backoff rc b)"
  by (induction rule: task_move.induct) simp_all

lemma task_move_streams:
  "task_move pr rc name t cm ans t' cm' \<Longrightarrow>
   streams_recorded name cm' =
     (if carried t' \<and> \<not> carried t then min (streams_recorded name cm + 1) (2 ^ 64 - 1) else streams_recorded name cm) \<and>
   (carried t \<longrightarrow> carried t')"
  by (induction rule: task_move.induct) simp_all

lemmas task_move_effect = task_move_cached task_move_provider task_move_backoff task_move_streams

lemma filter_update_count:
  assumes "i < length xs" and "P (xs ! i) \<Longrightarrow> P x"
  shows "length (filter P (xs[i := x])) = length (filter P xs) + (if P x \<and> \<not> P (xs ! i) then 1 else 0)"
proof -
  have "length (filter P (xs[i := x])) + (if P (xs ! i) then 1 else 0) = length (filter P xs) + (if P x then 1 else 0)"
    using assms(1)
  proof (induction xs arbitrary: i)
    case (Cons y ys)
    then show ?case by (cases i) auto
  qed simp
  then show ?thesis using assms(2) by (auto split: if_splits)
qed

lemma task_step_inv: "task_step pr rc name sy sy' \<Longrightarrow> consumer_inv rc name sy \<Longrightarrow> consumer_inv rc name sy'"
proof (induction rule: task_step.induct)
  case (accept sy)
  then show ?case by (simp add: consumer_inv_def)
next
  case (move i sy ans t' cm')
  note eff = task_move_effect [OF move(2)]
  let ?t = "sys_tasks sy ! i" and ?as = "case ans of None \<Rightarrow> sys_answers sy | Some p \<Rightarrow> sys_answers sy @ [p]"
  have t: "?t \<in> set (sys_tasks sy)" using move(1) by simp
  have as: "set ?as = set (sys_answers sy) \<union> set_option ans" by (cases ans) auto
  have inv: "set_option (cm_cached (sys_shared sy)) \<subseteq> set (sys_answers sy)"
    "\<And>u. u \<in> set (sys_tasks sy) \<Longrightarrow> set_option (task_provider u) \<subseteq> set (sys_answers sy)"
    "\<And>u b. u \<in> set (sys_tasks sy) \<Longrightarrow> b \<in> set_option (task_backoff u) \<Longrightarrow> \<exists>k. b = (next_backoff rc ^^ k) (initial_backoff_ms rc)"
    "streams_recorded name (sys_shared sy) = min (length (filter carried (sys_tasks sy))) (2 ^ 64 - 1)"
    using move(3) by (auto simp: consumer_inv_def)
  have backoff: "\<exists>k. b' = (next_backoff rc ^^ k) (initial_backoff_ms rc)" if "b' \<in> set_option (task_backoff t')" for b'
    using eff(3) [OF that] inv(3) [OF t] by (metis funpow.simps(2) funpow_0 o_apply)
  have "set_option (task_provider u) \<subseteq> set ?as \<and>
      (\<forall>b\<in>set_option (task_backoff u). \<exists>k. b = (next_backoff rc ^^ k) (initial_backoff_ms rc))"
    if u: "u \<in> set ((sys_tasks sy)[i := t'])" for u
  proof -
    consider "u = t'" | "u \<in> set (sys_tasks sy)"
      using u set_update_subset_insert [of "sys_tasks sy" i t'] by blast
    then show ?thesis
    proof cases
      case 1
      with eff(2) inv(1) inv(2) [OF t] backoff show ?thesis unfolding as by blast
    next
      case 2
      with inv(2,3) show ?thesis unfolding as by blast
    qed
  qed
  moreover have "set_option (cm_cached cm') \<subseteq> set ?as"
    using eff(1) inv(1) unfolding as by blast
  moreover have "streams_recorded name cm' = min (length (filter carried ((sys_tasks sy)[i := t']))) (2 ^ 64 - 1)"
    using eff(4) inv(4) filter_update_count [OF move(1), of carried t'] by auto
  ultimately show ?case
    unfolding consumer_inv_def by simp
qed

lemma task_steps_inv:
  "(task_step pr rc name)\<^sup>*\<^sup>* sy sy' \<Longrightarrow> consumer_inv rc name sy \<Longrightarrow> consumer_inv rc name sy'"
  by (induction rule: rtranclp_induct) (auto intro: task_step_inv)


section \<open>The sequential loop is one of the runs\<close>

definition alone :: "('id, 'x) task \<Rightarrow> 'id consumer \<Rightarrow> 'id list \<Rightarrow> ('id, 'x) consumer_system" where
  "alone t cm as = \<lparr>sys_shared = cm, sys_tasks = [t], sys_answers = as\<rparr>"

text \<open>From this state of a single task, the task can get to a state with the task \<open>t'\<close> and \<open>cm'\<close>.\<close>

definition gets_to ::
  "printers \<Rightarrow> reconnect_config \<Rightarrow> string \<Rightarrow> ('id, 'x) task \<Rightarrow> 'id consumer \<Rightarrow> (('id, 'x) task \<Rightarrow> 'id consumer \<Rightarrow> bool) \<Rightarrow> bool" where
  "gets_to pr rc name t cm G \<longleftrightarrow>
     (\<forall>as. \<exists>t' cm' as'. (task_step pr rc name)\<^sup>*\<^sup>* (alone t cm as) (alone t' cm' as') \<and> G t' cm')"

lemma gets_to_refl: "G t cm \<Longrightarrow> gets_to pr rc name t cm G"
  by (auto simp: gets_to_def)

lemma gets_to_move:
  assumes "task_move pr rc name t cm ans t' cm'" and "gets_to pr rc name t' cm' G"
  shows "gets_to pr rc name t cm G"
  unfolding gets_to_def
proof
  fix as
  have "task_step pr rc name (alone t cm as) (alone t' cm' (case ans of None \<Rightarrow> as | Some p \<Rightarrow> as @ [p]))"
    using task_step.move [where i = 0 and sy = "alone t cm as" and ans = ans] assms(1)
    by (cases ans) (simp_all add: alone_def)
  then show "\<exists>t' cm' as'. (task_step pr rc name)\<^sup>*\<^sup>* (alone t cm as) (alone t' cm' as') \<and> G t' cm'"
    using assms(2) unfolding gets_to_def by (meson converse_rtranclp_into_rtranclp)
qed

lemmas gets_to_moves = task_move.intros [THEN gets_to_move]

lemma resolve_gets_to:
  assumes "ensure_provider_id ans cm = (Inr p, cm1)" and "gets_to pr rc name (dial_first rc b p) cm1 G"
  shows "gets_to pr rc name (Resolving b) cm G"
proof (cases "cm_cached cm")
  case None
  with assms(1) have "cm1 = cm\<lparr>cm_cached := Some p\<rparr>"
    by (auto simp: ensure_provider_id_def split: sum.splits)
  with assms(2) None show ?thesis
    by (auto intro: gets_to_moves)
next
  case (Some q)
  with assms show ?thesis
    by (auto simp: ensure_provider_id_def intro: gets_to_moves)
qed

text \<open>The state in which a task is when the loop has returned, or has run out of turns.\<close>

fun loop_ended :: "'x dial_result \<Rightarrow> ('id, 'x) task \<Rightarrow> bool" where
  "loop_ended (Connected mode x) t = (\<exists>p. t = Bridging mode p x)"
| "loop_ended (NoProviderKnown e) t = (t = Done (ForwardNoProvider e))"
| "loop_ended Unwound t = (t = Done ForwardUnwound)"
| "loop_ended StillTrying t = (\<exists>b. t = Resolving b)"

text \<open>The second half of a turn, at the relay.\<close>

lemma relay_gets_to:
  assumes "relay_turn pr name b now (dial_loop pr rc name (next_backoff rc b) ats) relayed cm = (res, cm', sleeps)"
    and "\<And>cm res cm' sleeps. dial_loop pr rc name (next_backoff rc b) ats cm = (res, cm', sleeps) \<Longrightarrow>
      gets_to pr rc name (Resolving (next_backoff rc b)) cm (\<lambda>t c. loop_ended res t \<and> c = cm')"
  shows "gets_to pr rc name (Relaying b p) cm (\<lambda>t c. loop_ended res t \<and> c = cm')"
proof -
  consider e where "relayed = Inl e" "dial_panics e" | e where "relayed = Inl e" "\<not> dial_panics e" | x where "relayed = Inr x"
    by (cases relayed) auto
  then show ?thesis
  proof cases
    case 1
    with assms(1) show ?thesis
      by (auto simp: relay_turn_def intro: gets_to_moves(14) gets_to_refl)
  next
    case (2 e)
    with assms show ?thesis
      by (auto simp: relay_turn_def split: prod.splits intro!: gets_to_moves(9,10))
  next
    case (3 x)
    with assms(1) show ?thesis
      by (intro gets_to_moves(8) [where x = x and now = now] gets_to_refl) (auto simp: relay_turn_def)
  qed
qed

text \<open>A turn from the choice of the first path on.\<close>

lemma dial_gets_to:
  assumes "dial_loop pr rc name b (tn # ats) cm = (res, cm', sleeps)"
    and "ensure_provider_id (at_subscribe tn) cm = (Inr p, cm1)"
    and "\<And>cm res cm' sleeps. dial_loop pr rc name (next_backoff rc b) ats cm = (res, cm', sleeps) \<Longrightarrow>
      gets_to pr rc name (Resolving (next_backoff rc b)) cm (\<lambda>t c. loop_ended res t \<and> c = cm')"
  shows "gets_to pr rc name (dial_first rc b p) cm1 (\<lambda>t c. loop_ended res t \<and> c = cm')"
proof -
  note relay = relay_gets_to [OF _ assms(3), unfolded next_backoff_def]
  consider "\<not> prefer_direct rc" | e where "prefer_direct rc" "at_direct tn p = Inl e" "dial_panics e"
    | e where "prefer_direct rc" "at_direct tn p = Inl e" "\<not> dial_panics e"
    | x where "prefer_direct rc" "at_direct tn p = Inr x"
    by (cases "at_direct tn p") auto
  then show ?thesis
  proof cases
    case 1
    with assms(1,2) show ?thesis
      by (simp add: dial_first_def relay)
  next
    case 2
    with assms(1,2) show ?thesis
      by (auto simp: dial_first_def intro: gets_to_moves(13) gets_to_refl)
  next
    case (3 e)
    with assms(1,2) have "gets_to pr rc name (Relaying b p) (after_direct_error pr e cm1)
        (\<lambda>t c. loop_ended res t \<and> c = cm')"
      by (intro relay) simp
    with 3 show ?thesis
      by (auto simp: dial_first_def intro: gets_to_moves(7) [where e = e])
  next
    case (4 x)
    with assms(1,2) have "res = Connected ''direct'' x" "cm' = set_consumer (at_now tn) name Live (Some ''direct'') None cm1"
      by auto
    with 4 show ?thesis
      by (auto simp: dial_first_def intro: gets_to_moves(6) gets_to_refl)
  qed
qed

lemma dial_loop_simulated:
  assumes "dial_loop pr rc name b ats cm = (res, cm', sleeps)"
  shows "gets_to pr rc name (Resolving b) cm (\<lambda>t c. loop_ended res t \<and> c = cm')"
  using assms
proof (induction ats arbitrary: b cm res cm' sleeps)
  case Nil
  then show ?case
    by (auto intro: gets_to_refl)
next
  case (Cons tn ats)
  obtain r cm1 where r: "ensure_provider_id (at_subscribe tn) cm = (r, cm1)" by fastforce
  show ?case
  proof (cases r)
    case (Inl e)
    with r Cons.prems have "cm_cached cm = None" "res = (if subscribe_panics e then Unwound else NoProviderKnown e)" "cm' = cm"
      by (auto simp: ensure_provider_id_def split: option.splits sum.splits)
    then show ?thesis
      by (cases "subscribe_panics e") (auto intro: gets_to_moves gets_to_refl)
  next
    case (Inr p)
    from dial_gets_to [OF Cons.prems r [unfolded Inr] Cons.IH] r Inr show ?thesis
      by (auto intro: resolve_gets_to)
  qed
qed

lemma forward_starts:
  assumes "dial_stream pr rc name now ats cm = (res, cm', sleeps)"
  shows "gets_to pr rc name Spawned cm (\<lambda>t c. loop_ended res t \<and> c = cm')"
  using assms unfolding dial_stream_def by (blast intro: gets_to_moves dial_loop_simulated)

section \<open>Properties\<close>

text \<open>
  C32. The tasks of a consumed service do not corrupt what they share, however they interleave:
  from a fresh start, the cached provider and every provider that is dialled or bridged to is one
  that the server has answered, every delay is one of the backoff sequence, and the number of
  forwarded streams in the status is the number of tasks that were given a stream (as far as 64
  bits go).
\<close>

theorem consumer_tasks_consistent:
  assumes "consumer_start bound names = Some sy" and "(task_step pr rc name)\<^sup>*\<^sup>* sy sy'"
  shows "set_option (cm_cached (sys_shared sy')) \<subseteq> set (sys_answers sy') \<and>
    (\<forall>t\<in>set (sys_tasks sy'). set_option (task_provider t) \<subseteq> set (sys_answers sy') \<and>
       (\<forall>b\<in>set_option (task_backoff t). \<exists>k. b = (next_backoff rc ^^ k) (initial_backoff_ms rc))) \<and>
    streams_recorded name (sys_shared sy') = min (length (filter carried (sys_tasks sy'))) (2 ^ 64 - 1)"
proof -
  have "hm_get (fold (\<lambda>(k, v). hm_insert k v) (map (\<lambda>n. (n, consumer_status_default)) names) hm_empty) name
      \<in> {None, Some consumer_status_default}"
    by (subst hm.get_insert_all) (auto simp: hm_empty_def dest!: map_of_SomeD split: option.splits)
  then have "consumer_inv rc name sy"
    using assms(1) by (auto simp: consumer_start_def consumer_inv_def streams_recorded_def new_status_def
        consumer_status_default_def split: if_splits option.splits)
  then show ?thesis
    using task_steps_inv [OF assms(2)] unfolding consumer_inv_def by blast
qed

definition demo_fresh :: "(nat, string) consumer_system" where
  "demo_fresh = \<lparr>sys_shared = \<lparr>cm_cached = None, cm_status = new_status [''ssh'']\<rparr>, sys_tasks = [], sys_answers = []\<rparr>"

lemma demo_fresh_run:
  "\<exists>p as. (task_step plain_printers (demo_reconnect True) ''ssh'')\<^sup>*\<^sup>* demo_fresh
     (alone (Bridging ''direct'' p ''stream'') (set_consumer 5 ''ssh'' Live (Some ''direct'') None
       (set_consumer 0 ''ssh'' Dialing None None (sys_shared demo_fresh)\<lparr>cm_cached := Some 8\<rparr>)) as)"
proof -
  let ?cm = "sys_shared demo_fresh"
  have "task_step plain_printers (demo_reconnect True) ''ssh'' demo_fresh (alone Spawned ?cm [])"
    using task_step.accept [of plain_printers "demo_reconnect True" "''ssh''" demo_fresh]
    by (simp add: demo_fresh_def alone_def)
  moreover have "dial_stream plain_printers (demo_reconnect True) ''ssh'' 0 [working_turn] ?cm =
    (Connected ''direct'' ''stream'', set_consumer 5 ''ssh'' Live (Some ''direct'') None
       (set_consumer 0 ''ssh'' Dialing None None ?cm\<lparr>cm_cached := Some 8\<rparr>), [])"
    by (simp add: dial_stream_def ensure_provider_id_def demo_fresh_def working_turn_def demo_reconnect_def)
  ultimately show ?thesis
    using forward_starts [of plain_printers "demo_reconnect True" "''ssh''" 0 "[working_turn]" ?cm]
    unfolding gets_to_def by (fastforce intro: converse_rtranclp_into_rtranclp)
qed

theorem consumer_tasks_consistent_witness:
  "\<exists>sy'. (task_step plain_printers (demo_reconnect True) ''ssh'')\<^sup>*\<^sup>* demo_fresh sy' \<and>
     8 \<in> set (sys_answers sy') \<and> streams_recorded ''ssh'' (sys_shared sy') = 1"
proof -
  have s: "consumer_start True [''ssh''] = Some demo_fresh"
    by (simp add: consumer_start_def demo_fresh_def)
  obtain p as cm where cm: "cm = set_consumer 5 ''ssh'' Live (Some ''direct'') None
       (set_consumer 0 ''ssh'' Dialing None None (sys_shared demo_fresh)\<lparr>cm_cached := Some 8\<rparr>)"
    and r: "(task_step plain_printers (demo_reconnect True) ''ssh'')\<^sup>*\<^sup>* demo_fresh (alone (Bridging ''direct'' p ''stream'') cm as)"
    using demo_fresh_run by blast
  have "8 \<in> set as \<and> streams_recorded ''ssh'' cm = 1"
    using consumer_tasks_consistent [OF s r] by (simp add: alone_def) (simp add: cm)
  with r show ?thesis
    by (intro exI [of _ "alone (Bridging ''direct'' p ''stream'') cm as"]) (simp add: alone_def)
qed

end
