(* ===== verification/Static_Http.thy ===== *)
theory Static_Http
  imports Auth
begin

text \<open>
  \<^verbatim>\<open>crates/client/src/static_http.rs\<close>: the HTTP/1.1 server for a directory. The buffered reader is
  the list of chunks that successive calls of \<open>fill_buf\<close> return (none of them empty) and how the
  stream ends; \<open>consume\<close> leaves the rest of the first chunk. The file system is a parameter: a
  canonical path is the list of its components.
\<close>

section \<open>Reading\<close>

record buf_reader =
  b_chunks :: "bytes list"
  b_end :: stream_end

datatype http_error =
    HttpIo
  | PeerClosedMidLine
  | LineTooLong nat
  | PeerClosedMidHeaders
  | HeadersTooLong nat
  | NonUtf8RequestLine
  | MissingPath
  | MissingVersion
  | BadVersion string
  | NonUtf8Headers
  | BadContentLength string
  | BodyTooLong nat nat
  | WriteFailed io_error

definition MAX_REQUEST_LINE :: nat where "MAX_REQUEST_LINE = 8 * 1024"
definition MAX_HEADERS :: nat where "MAX_HEADERS = 64 * 1024"
definition MAX_BODY_BYTES :: nat where "MAX_BODY_BYTES = 0"

definition LF :: u8 where "LF = 10"
definition CR :: u8 where "CR = 13"

fun position :: "('a \<Rightarrow> bool) \<Rightarrow> 'a list \<Rightarrow> nat option" where
  "position P [] = None"
| "position P (x # xs) = (if P x then Some 0 else map_option Suc (position P xs))"

text \<open>What remains of the first chunk after \<open>consume\<close>.\<close>

definition consume_first :: "nat \<Rightarrow> bytes \<Rightarrow> bytes list \<Rightarrow> bytes list" where
  "consume_first n chunk rest = (if n < length chunk then drop n chunk # rest else rest)"

fun read_until_limited ::
  "u8 \<Rightarrow> nat \<Rightarrow> bytes \<Rightarrow> stream_end \<Rightarrow> bytes list \<Rightarrow> (http_error + bytes option) \<times> bytes list" where
  "read_until_limited delim lim buf e [] =
     ((case e of Lost \<Rightarrow> Inl HttpIo
       | Eof \<Rightarrow> if buf = [] then Inr None else Inl PeerClosedMidLine), [])"
| "read_until_limited delim lim buf e (chunk # rest) =
     (case position (\<lambda>b. b = delim) chunk of
        Some pos \<Rightarrow>
          (let n = pos + 1 in
           if length buf + n > lim then (Inl (LineTooLong lim), chunk # rest)
           else (Inr (Some (buf @ take n chunk)), consume_first n chunk rest))
      | None \<Rightarrow>
          if length buf + length chunk > lim then (Inl (LineTooLong lim), chunk # rest)
          else read_until_limited delim lim (buf @ chunk) e rest)"

definition terminator_at :: "bytes \<Rightarrow> nat \<Rightarrow> nat option" where
  "terminator_at chunk i =
     (if i + 3 < length chunk \<and> chunk ! i = CR \<and> chunk ! (i + 1) = LF \<and> chunk ! (i + 2) = CR \<and> chunk ! (i + 3) = LF
      then Some (i + 3)
      else if i + 1 < length chunk \<and> chunk ! i = LF \<and> chunk ! (i + 1) = LF then Some (i + 1)
      else None)"

fun first_terminator :: "bytes \<Rightarrow> nat list \<Rightarrow> nat option" where
  "first_terminator chunk [] = None"
| "first_terminator chunk (i # is) =
     (case terminator_at chunk i of Some j \<Rightarrow> Some j | None \<Rightarrow> first_terminator chunk is)"

definition find_header_terminator :: "bytes \<Rightarrow> nat option" where
  "find_header_terminator chunk = first_terminator chunk [0..<length chunk]"

fun read_headers_limited ::
  "nat \<Rightarrow> bytes \<Rightarrow> stream_end \<Rightarrow> bytes list \<Rightarrow> (http_error + bytes) \<times> bytes list" where
  "read_headers_limited lim buf e [] = ((case e of Lost \<Rightarrow> Inl HttpIo | Eof \<Rightarrow> Inl PeerClosedMidHeaders), [])"
| "read_headers_limited lim buf e (chunk # rest) =
     (case find_header_terminator chunk of
        Some endp \<Rightarrow>
          (let n = endp + 1 in
           if length buf + n > lim then (Inl (HeadersTooLong lim), chunk # rest)
           else (Inr (buf @ take n chunk), consume_first n chunk rest))
      | None \<Rightarrow>
          if length buf + length chunk > lim then (Inl (HeadersTooLong lim), chunk # rest)
          else read_headers_limited lim (buf @ chunk) e rest)"

section \<open>Text\<close>

fun split_once :: "char \<Rightarrow> string \<Rightarrow> (string \<times> string) option" where
  "split_once c [] = None"
| "split_once c (x # xs) =
     (if x = c then Some ([], xs) else map_option (\<lambda>(k, v). (x # k, v)) (split_once c xs))"

definition trim_end_matches :: "char list \<Rightarrow> string \<Rightarrow> string" where
  "trim_end_matches cs s = rev (dropWhile (\<lambda>c. c \<in> set cs) (rev s))"

text \<open>The UTF-8 encodings of the characters that \<open>str::trim\<close> removes (Unicode white space).\<close>

definition white_space :: "bytes list" where
  "white_space = [[9], [10], [11], [12], [13], [32], [0xC2, 0x85], [0xC2, 0xA0], [0xE1, 0x9A, 0x80],
     [0xE2, 0x80, 0x80], [0xE2, 0x80, 0x81], [0xE2, 0x80, 0x82], [0xE2, 0x80, 0x83], [0xE2, 0x80, 0x84],
     [0xE2, 0x80, 0x85], [0xE2, 0x80, 0x86], [0xE2, 0x80, 0x87], [0xE2, 0x80, 0x88], [0xE2, 0x80, 0x89],
     [0xE2, 0x80, 0x8A], [0xE2, 0x80, 0xA8], [0xE2, 0x80, 0xA9], [0xE2, 0x80, 0xAF], [0xE2, 0x81, 0x9F],
     [0xE3, 0x80, 0x80]]"

fun strip_white :: "bytes list \<Rightarrow> nat \<Rightarrow> string \<Rightarrow> string" where
  "strip_white ws 0 s = s"
| "strip_white ws (Suc n) s =
     (case List.find (\<lambda>w. prefix (of_bytes w) s) ws of
        Some w \<Rightarrow> strip_white ws n (drop (length w) s) | None \<Rightarrow> s)"

definition trim :: "string \<Rightarrow> string" where
  "trim s =
     (let t = strip_white white_space (length s) s
      in rev (strip_white (map rev white_space) (length t) (rev t)))"

definition ascii_lower :: "char \<Rightarrow> char" where
  "ascii_lower c =
     (if 65 \<le> (of_char c :: nat) \<and> (of_char c :: nat) \<le> 90 then char_of ((of_char c :: nat) + 32) else c)"

definition eq_ignore_ascii_case :: "string \<Rightarrow> string \<Rightarrow> bool" where
  "eq_ignore_ascii_case s t \<longleftrightarrow> map ascii_lower s = map ascii_lower t"

definition digit_value :: "char \<Rightarrow> nat option" where
  "digit_value c =
     (let n = (of_char c :: nat) in if 48 \<le> n \<and> n \<le> 57 then Some (n - 48) else None)"

fun parse_digits :: "nat \<Rightarrow> string \<Rightarrow> nat option" where
  "parse_digits acc [] = Some acc"
| "parse_digits acc (c # cs) =
     (case digit_value c of
        None \<Rightarrow> None
      | Some d \<Rightarrow> if acc * 10 + d < 2 ^ 64 then parse_digits (acc * 10 + d) cs else None)"

text \<open>\<open>str::parse::<usize>\<close>: an optional plus sign and at least one digit, without overflow.\<close>

definition parse_usize :: "string \<Rightarrow> nat option" where
  "parse_usize s =
     (let ds = (case s of c # cs \<Rightarrow> if c = CHR ''+'' then cs else s | [] \<Rightarrow> [])
      in if ds = [] then None else parse_digits 0 ds)"

section \<open>Requests\<close>

record request =
  rq_method :: string
  rq_path :: string
  rq_keep_alive :: bool

record header_info =
  hi_content_length :: nat
  hi_close :: bool
  hi_keep_alive :: bool

fun connection_tokens :: "string list \<Rightarrow> header_info \<Rightarrow> header_info" where
  "connection_tokens [] hi = hi"
| "connection_tokens (t # ts) hi =
     connection_tokens ts
       (if eq_ignore_ascii_case (trim t) ''close'' then hi\<lparr>hi_close := True\<rparr>
        else if eq_ignore_ascii_case (trim t) ''keep-alive'' then hi\<lparr>hi_keep_alive := True\<rparr>
        else hi)"

fun parse_headers :: "string list \<Rightarrow> header_info \<Rightarrow> http_error + header_info" where
  "parse_headers [] hi = Inr hi"
| "parse_headers (l # ls) hi =
     (let line = trim_end_matches [CHR 0x0D] l in
      if line = [] then Inr hi
      else
        (case split_once (CHR '':'') line of
           None \<Rightarrow> parse_headers ls hi
         | Some (k0, v0) \<Rightarrow>
             let k = trim k0; v = trim v0 in
             if eq_ignore_ascii_case k ''content-length'' then
               (case parse_usize v of
                  None \<Rightarrow> Inl (BadContentLength v)
                | Some n \<Rightarrow> parse_headers ls (hi\<lparr>hi_content_length := n\<rparr>))
             else if eq_ignore_ascii_case k ''connection'' then
               parse_headers ls (connection_tokens (split_on (CHR '','') v) hi)
             else parse_headers ls hi))"

definition keep_alive_of :: "string \<Rightarrow> header_info \<Rightarrow> bool" where
  "keep_alive_of version hi =
     (if version = ''HTTP/1.1'' then \<not> hi_close hi
      else if version = ''HTTP/1.0'' then hi_keep_alive hi else False)"

definition parse_request_line :: "bytes \<Rightarrow> http_error + string \<times> string \<times> string" where
  "parse_request_line line_buf =
     and_then (ok_or (from_utf8 line_buf) NonUtf8RequestLine) (\<lambda>s.
     (case split_on (CHR '' '') (trim_end_matches [CHR 0x0D, CHR 0x0A] s) of
        [] \<Rightarrow> Inl MissingPath
      | [m] \<Rightarrow> Inl MissingPath
      | [m, p] \<Rightarrow> Inl MissingVersion
      | m # p # v # _ \<Rightarrow> if prefix ''HTTP/'' v then Inr (m, p, v) else Inl (BadVersion v)))"

text \<open>
  A request with a body is refused because the limit is zero, so the code that drains a body is
  never reached.
\<close>

definition read_request :: "buf_reader \<Rightarrow> (http_error + request option) \<times> buf_reader" where
  "read_request r =
     (case read_until_limited LF MAX_REQUEST_LINE [] (b_end r) (b_chunks r) of
        (Inl e, cs) \<Rightarrow> (Inl e, r\<lparr>b_chunks := cs\<rparr>)
      | (Inr None, cs) \<Rightarrow> (Inr None, r\<lparr>b_chunks := cs\<rparr>)
      | (Inr (Some line), cs) \<Rightarrow>
          (case parse_request_line line of
             Inl e \<Rightarrow> (Inl e, r\<lparr>b_chunks := cs\<rparr>)
           | Inr (m, p, v) \<Rightarrow>
               (case read_headers_limited MAX_HEADERS [] (b_end r) cs of
                  (Inl e, cs') \<Rightarrow> (Inl e, r\<lparr>b_chunks := cs'\<rparr>)
                | (Inr hdrs, cs') \<Rightarrow>
                    (and_then (ok_or (from_utf8 hdrs) NonUtf8Headers) (\<lambda>hs.
                     and_then (parse_headers (split_on (CHR 0x0A) hs)
                         \<lparr>hi_content_length = 0, hi_close = False, hi_keep_alive = False\<rparr>) (\<lambda>hi.
                     if hi_content_length hi > MAX_BODY_BYTES
                     then Inl (BodyTooLong (hi_content_length hi) MAX_BODY_BYTES)
                     else Inr (Some \<lparr>rq_method = m, rq_path = p, rq_keep_alive = keep_alive_of v hi\<rparr>))),
                     r\<lparr>b_chunks := cs'\<rparr>))))"

section \<open>Helpers for responses\<close>

definition hex_value :: "u8 \<Rightarrow> nat option" where
  "hex_value b =
     (let n = unat b in
      if 48 \<le> n \<and> n \<le> 57 then Some (n - 48)
      else if 97 \<le> n \<and> n \<le> 102 then Some (n - 87)
      else if 65 \<le> n \<and> n \<le> 70 then Some (n - 55)
      else None)"

fun percent_bytes :: "bytes \<Rightarrow> bytes option" where
  "percent_bytes [] = Some []"
| "percent_bytes (b # bs) =
     (if b = 0x25 then
        (case bs of
           h # l # rest \<Rightarrow>
             (case (hex_value h, hex_value l) of
                (Some hi, Some lo) \<Rightarrow> map_option ((#) (of_nat (hi * 16 + lo))) (percent_bytes rest)
              | _ \<Rightarrow> None)
         | _ \<Rightarrow> None)
      else map_option ((#) (if b = 0x2B then 0x20 else b)) (percent_bytes bs))"

definition percent_decode :: "string \<Rightarrow> string option" where
  "percent_decode s =
     (case percent_bytes (as_bytes s) of None \<Rightarrow> None | Some bs \<Rightarrow> from_utf8 bs)"

definition extension :: "string \<Rightarrow> string option" where
  "extension name =
     (let parts = split_on (CHR ''.'') name in
      if name = ''..'' \<or> length parts < 2 \<or> (length parts = 2 \<and> hd parts = []) then None
      else Some (last parts))"

definition guess_content_type :: "string list \<Rightarrow> string" where
  "guess_content_type path =
     (case (if path = [] then None else extension (last path)) of
        None \<Rightarrow> ''application/octet-stream''
      | Some e \<Rightarrow>
          if e = ''html'' \<or> e = ''htm'' then ''text/html; charset=utf-8''
          else if e = ''css'' then ''text/css; charset=utf-8''
          else if e = ''js'' \<or> e = ''mjs'' then ''application/javascript; charset=utf-8''
          else if e = ''json'' then ''application/json; charset=utf-8''
          else if e = ''txt'' \<or> e = ''md'' then ''text/plain; charset=utf-8''
          else if e = ''png'' then ''image/png''
          else if e = ''jpg'' \<or> e = ''jpeg'' then ''image/jpeg''
          else if e = ''gif'' then ''image/gif''
          else if e = ''svg'' then ''image/svg+xml''
          else if e = ''ico'' then ''image/x-icon''
          else if e = ''pdf'' then ''application/pdf''
          else if e = ''zip'' then ''application/zip''
          else if e = ''wasm'' then ''application/wasm''
          else ''application/octet-stream'')"

definition escape_char :: "char \<Rightarrow> string" where
  "escape_char c =
     (if c = CHR ''&'' then ''&amp;''
      else if c = CHR ''<'' then ''&lt;''
      else if c = CHR ''>'' then ''&gt;''
      else if c = CHR 0x22 then ''&quot;''
      else if c = CHR 0x27 then ''&#39;''
      else [c])"

definition html_escape :: "string \<Rightarrow> string" where
  "html_escape s = concat (map escape_char s)"

text \<open>\<open>str::replace\<close> of two dots by nothing: matches are found from the left, without overlap.\<close>

fun drop_dotdot :: "string \<Rightarrow> string" where
  "drop_dotdot (a # b # cs) =
     (if a = CHR ''.'' \<and> b = CHR ''.'' then drop_dotdot cs else a # drop_dotdot (b # cs))"
| "drop_dotdot s = s"

text \<open>Decimal printing of numbers, and of a quotient with one digit (half to even).\<close>

fun show_nat :: "nat \<Rightarrow> string" where
  "show_nat n = (if n < 10 then [char_of (48 + n)] else show_nat (n div 10) @ [char_of (48 + n mod 10)])"

declare show_nat.simps [simp del]

definition one_decimal :: "nat \<Rightarrow> nat \<Rightarrow> string" where
  "one_decimal a b =
     (let q = 10 * a div b; r = 10 * a mod b;
          t = (if 2 * r < b then q else if 2 * r > b then q + 1 else if even q then q else q + 1)
      in show_nat (t div 10) @ ''.'' @ show_nat (t mod 10))"

definition size_text :: "nat \<Rightarrow> string" where
  "size_text n =
     (if n < 1024 then show_nat n @ '' B''
      else if n < 1024 * 1024 then one_decimal n 1024 @ '' KB''
      else one_decimal n (1024 * 1024) @ '' MB'')"

section \<open>Directory listings\<close>

record dir_entry =
  de_name :: string
  de_meta :: "(bool \<times> nat) option"

record listed =
  li_name :: string
  li_is_dir :: bool
  li_size :: nat
  li_href :: string

definition join_parts :: "string list \<Rightarrow> string" where
  "join_parts ps = (case ps of [] \<Rightarrow> [] | p # rest \<Rightarrow> p @ concat (map (\<lambda>q. ''/'' @ q) rest))"

definition relative_to :: "string list \<Rightarrow> string list \<Rightarrow> string list" where
  "relative_to root path = (if prefix root path then drop (length root) path else path)"

definition list_entry :: "string list \<Rightarrow> string list \<Rightarrow> dir_entry \<Rightarrow> listed" where
  "list_entry root dir e =
     (let is_dir = (case de_meta e of Some (d, _) \<Rightarrow> d | None \<Rightarrow> False);
          sz = (case de_meta e of Some (_, n) \<Rightarrow> n | None \<Rightarrow> 0);
          rel = join_parts (relative_to root (dir @ [de_name e]))
      in \<lparr>li_name = de_name e, li_is_dir = is_dir, li_size = sz,
          li_href = (if is_dir then rel @ ''/'' else rel)\<rparr>)"

fun string_le :: "string \<Rightarrow> string \<Rightarrow> bool" where
  "string_le [] t = True"
| "string_le (c # s) [] = False"
| "string_le (c # s) (d # t) =
     ((of_char c :: nat) < of_char d \<or> (c = d \<and> string_le s t))"

definition listed_le :: "(string \<Rightarrow> string) \<Rightarrow> listed \<Rightarrow> listed \<Rightarrow> bool" where
  "listed_le lower a b \<longleftrightarrow>
     (li_is_dir a \<and> \<not> li_is_dir b) \<or>
     (li_is_dir a = li_is_dir b \<and> string_le (lower (li_name a)) (lower (li_name b)))"

fun insert_by :: "('a \<Rightarrow> 'a \<Rightarrow> bool) \<Rightarrow> 'a \<Rightarrow> 'a list \<Rightarrow> 'a list" where
  "insert_by le x [] = [x]"
| "insert_by le x (y # ys) = (if le x y then x # y # ys else y # insert_by le x ys)"

definition sort_by :: "('a \<Rightarrow> 'a \<Rightarrow> bool) \<Rightarrow> 'a list \<Rightarrow> 'a list" where
  "sort_by le xs = foldr (insert_by le) xs []"

definition em_dash :: string where
  "em_dash = of_bytes [0xE2, 0x80, 0x94]"

definition quoted :: "string \<Rightarrow> string" where
  "quoted s = [CHR 0x22] @ s @ [CHR 0x22]"

definition listing_row :: "listed \<Rightarrow> string" where
  "listing_row e =
     ''<tr><td><a href='' @ quoted (html_escape (drop_dotdot (li_href e))) @ ''>''
       @ html_escape (if li_is_dir e then li_name e @ ''/'' else li_name e)
       @ ''</a></td><td class='' @ quoted ''size'' @ ''>''
       @ (if li_is_dir e then em_dash else size_text (li_size e)) @ ''</td></tr>''"

definition listing_title :: "string list \<Rightarrow> string list \<Rightarrow> string" where
  "listing_title root dir = ''/'' @ join_parts (relative_to root dir)"

definition listing_head :: "string \<Rightarrow> string" where
  "listing_head title =
     ''<!DOCTYPE html>'' @ [CHR 0x0A] @ ''<html><head><meta charset='' @ quoted ''utf-8'' @ ''>''
     @ ''<title>Index of '' @ title @ ''</title>'' @ ''<style>''
     @ ''body{font-family:system-ui,sans-serif;margin:1.5em;max-width:60em}''
     @ ''table{border-collapse:collapse;width:100%}''
     @ ''th,td{padding:0.3em 0.6em;text-align:left;border-bottom:1px solid #eee}''
     @ ''a{text-decoration:none;color:#04c}a:hover{text-decoration:underline}''
     @ ''.size{text-align:right;font-variant-numeric:tabular-nums;color:#888}''
     @ ''</style></head><body>''"

definition listing_table :: "bool \<Rightarrow> listed list \<Rightarrow> string" where
  "listing_table is_root entries =
     ''<table><thead><tr><th>Name</th><th class='' @ quoted ''size'' @ ''>Size</th></tr></thead><tbody>''
     @ (if is_root then []
        else ''<tr><td><a href='' @ quoted ''../'' @ ''>../</a></td><td class='' @ quoted ''size'' @ ''>''
          @ em_dash @ ''</td></tr>'')
     @ concat (map listing_row entries)
     @ ''</tbody></table></body></html>''"

definition render_listing :: "string \<Rightarrow> bool \<Rightarrow> listed list \<Rightarrow> string" where
  "render_listing title is_root entries =
     listing_head title @ (''<h1>Index of '' @ title @ ''</h1>'') @ listing_table is_root entries"

definition render_directory_listing ::
  "(string \<Rightarrow> string) \<Rightarrow> string list \<Rightarrow> string list \<Rightarrow> dir_entry list \<Rightarrow> bytes" where
  "render_directory_listing lower root dir entries =
     as_bytes (render_listing (listing_title root dir) (relative_to root dir = [])
       (sort_by (listed_le lower) (map (list_entry root dir) entries)))"

section \<open>Responses\<close>

record static_spec =
  ss_name :: string
  ss_root_dir :: string
  ss_allow_directory_listing :: bool
  ss_shared_secret :: bytes

text \<open>
  What the code asks of the file system: the canonical form of a path, the kind of a file, its
  contents, the entries of a directory; and the library's conversion to lower case.
\<close>

record static_fs =
  fs_canonicalize :: "string \<Rightarrow> string list option"
  fs_is_dir :: "string list \<Rightarrow> bool option"
  fs_read :: "string list \<Rightarrow> bytes option"
  fs_read_dir :: "string list \<Rightarrow> dir_entry list option"
  fs_lower :: "string \<Rightarrow> string"

record response =
  hr_status :: nat
  hr_status_text :: string
  hr_headers :: "(string \<times> string) list"
  hr_body :: bytes

definition status_text_of :: "nat \<Rightarrow> string" where
  "status_text_of status =
     (if status = 400 then ''Bad Request'' else if status = 403 then ''Forbidden''
      else if status = 404 then ''Not Found'' else if status = 405 then ''Method Not Allowed''
      else if status = 500 then ''Internal Server Error'' else ''Error'')"

definition error_body_text :: "nat \<Rightarrow> string" where
  "error_body_text status =
     (if status = 400 then ''400 Bad Request'' else if status = 403 then ''403 Forbidden''
      else if status = 404 then ''404 Not Found'' else if status = 405 then ''405 Method Not Allowed''
      else if status = 500 then ''500 Internal Server Error'' else ''Error'')"

definition connection_text :: "bool \<Rightarrow> string" where
  "connection_text keep_alive = (if keep_alive then ''keep-alive'' else ''close'')"

definition response_headers :: "string \<Rightarrow> nat \<Rightarrow> bool \<Rightarrow> (string \<times> string) list" where
  "response_headers ctype len keep_alive =
     [(''Content-Type'', ctype), (''Content-Length'', show_nat len), (''Connection'', connection_text keep_alive)]"

definition error_response :: "nat \<Rightarrow> string \<Rightarrow> bool \<Rightarrow> response" where
  "error_response status verb keep_alive =
     (let body = (if verb = ''HEAD'' then [] else as_bytes (error_body_text status @ [CHR 0x0A])) in
      \<lparr>hr_status = status, hr_status_text = status_text_of status,
       hr_headers = response_headers ''text/plain; charset=utf-8'' (length body) keep_alive,
       hr_body = body\<rparr>)"

definition ok_response :: "request \<Rightarrow> string \<Rightarrow> bytes \<Rightarrow> response" where
  "ok_response req ctype body =
     \<lparr>hr_status = 200, hr_status_text = ''OK'',
      hr_headers = response_headers ctype (length body) (rq_keep_alive req),
      hr_body = (if rq_method req = ''HEAD'' then [] else body)\<rparr>"

definition path_text :: "string list \<Rightarrow> string" where
  "path_text ps = (if ps = [] then ''/'' else concat (map (\<lambda>p. ''/'' @ p) ps))"

definition join_path :: "string \<Rightarrow> string \<Rightarrow> string" where
  "join_path base rel =
     (if prefix ''/'' rel then rel
      else if base \<noteq> [] \<and> last base = CHR ''/'' then base @ rel else base @ ''/'' @ rel)"

definition raw_path :: "string \<Rightarrow> string" where
  "raw_path p = hd (split_on (CHR ''#'') (hd (split_on (CHR ''?'') p)))"

definition joined_path :: "string list \<Rightarrow> string \<Rightarrow> string" where
  "joined_path root url =
     (if prefix ''/'' url \<or> url = []
      then join_path (path_text root) (dropWhile (\<lambda>c. c = CHR ''/'') url)
      else join_path (path_text root) url)"

definition build_response :: "static_fs \<Rightarrow> static_spec \<Rightarrow> request \<Rightarrow> nat + response" where
  "build_response fs spec req =
     (if rq_method req \<noteq> ''GET'' \<and> rq_method req \<noteq> ''HEAD'' then Inl 405
      else
        and_then (ok_or (percent_decode (raw_path (rq_path req))) 400) (\<lambda>url.
        and_then (ok_or (fs_canonicalize fs (ss_root_dir spec)) 500) (\<lambda>root.
        and_then (ok_or (fs_canonicalize fs (joined_path root url)) 404) (\<lambda>target.
        if \<not> prefix root target then Inl 403
        else
          and_then (ok_or (fs_is_dir fs target) 404) (\<lambda>is_dir.
          if is_dir then
            (if \<not> ss_allow_directory_listing spec then Inl 403
             else
               and_then (ok_or (fs_read_dir fs target) 500) (\<lambda>entries.
               Inr (ok_response req ''text/html; charset=utf-8''
                 (render_directory_listing (fs_lower fs) root target entries))))
          else
            and_then (ok_or (fs_read fs target) 404) (\<lambda>body.
            Inr (ok_response req (guess_content_type target) body)))))))"

definition respond :: "static_fs \<Rightarrow> static_spec \<Rightarrow> request \<Rightarrow> response" where
  "respond fs spec req =
     (case build_response fs spec req of
        Inr r \<Rightarrow> r | Inl status \<Rightarrow> error_response status (rq_method req) (rq_keep_alive req))"

definition CRLF :: string where
  "CRLF = [CHR 0x0D, CHR 0x0A]"

definition response_head :: "response \<Rightarrow> string" where
  "response_head r =
     ''HTTP/1.1 '' @ show_nat (hr_status r) @ '' '' @ hr_status_text r @ CRLF
     @ concat (map (\<lambda>(k, v). k @ '': '' @ v @ CRLF) (hr_headers r)) @ CRLF"

definition flush_response :: "writer \<Rightarrow> (http_error + unit) \<times> writer" where
  "flush_response w = (case flush w of (Inl e, w') \<Rightarrow> (Inl (WriteFailed e), w') | (Inr _, w') \<Rightarrow> (Inr (), w'))"

lemma flush_response_done [simp]: "flush_response w = (Inr (), w)"
  by (simp add: flush_response_def)

definition write_response :: "response \<Rightarrow> writer \<Rightarrow> (http_error + unit) \<times> writer" where
  "write_response r w =
     (case write_all (as_bytes (response_head r)) w of
        (Inl e, w') \<Rightarrow> (Inl (WriteFailed e), w')
      | (Inr _, w') \<Rightarrow>
          if hr_body r \<noteq> [] then
            (case write_all (hr_body r) w' of
               (Inl e, w'') \<Rightarrow> (Inl (WriteFailed e), w'') | (Inr _, w'') \<Rightarrow> flush_response w'')
          else flush_response w')"

section \<open>Serving\<close>

definition serve_one ::
  "static_fs \<Rightarrow> static_spec \<Rightarrow> writer \<Rightarrow> buf_reader \<Rightarrow> (http_error + bool) \<times> writer \<times> buf_reader" where
  "serve_one fs spec w r =
     (case read_request r of
        (Inl e, r') \<Rightarrow> (Inl e, w, r')
      | (Inr None, r') \<Rightarrow> (Inr False, w, r')
      | (Inr (Some req), r') \<Rightarrow>
          (case write_response (respond fs spec req) w of
             (Inl e, w') \<Rightarrow> (Inl e, w', r')
           | (Inr _, w') \<Rightarrow> (Inr (rq_keep_alive req), w', r')))"

text \<open>The bytes that are still to be read: every request takes at least one.\<close>

definition unread :: "bytes list \<Rightarrow> nat" where
  "unread cs = sum_list (map length cs)"

lemma unread_simps [simp]: "unread [] = 0" "unread (c # cs) = length c + unread cs"
  by (simp_all add: unread_def)

lemma position_Some: "position P xs = Some i \<Longrightarrow> i < length xs \<and> P (xs ! i)"
  by (induction xs arbitrary: i) (auto split: if_splits)

lemma unread_consume_first: "n \<le> length chunk \<Longrightarrow> unread (consume_first n chunk rest) + n = unread (chunk # rest)"
  by (auto simp: consume_first_def)

lemma read_until_unread:
  "read_until_limited d lim buf e cs = (Inr (Some line), cs') \<Longrightarrow>
     unread cs' + length line = unread cs + length buf \<and> length buf < length line \<and> length line \<le> lim"
proof (induction cs arbitrary: buf)
  case Nil
  then show ?case by (auto split: stream_end.splits if_splits)
next
  case (Cons chunk rest)
  show ?case
  proof (cases "position (\<lambda>b. b = d) chunk")
    case None
    with Cons show ?thesis by (fastforce split: if_splits)
  next
    case (Some pos)
    then have pos: "Suc pos \<le> length chunk" using position_Some by fastforce
    have "\<not> lim < length buf + Suc pos" "line = buf @ take (Suc pos) chunk" "cs' = consume_first (Suc pos) chunk rest"
      using Cons.prems Some by (auto simp: Let_def split: if_splits)
    then show ?thesis
      using unread_consume_first [OF pos, of rest] pos by simp
  qed
qed

lemma first_terminator_less: "first_terminator chunk is = Some j \<Longrightarrow> j < length chunk"
  by (induction "is") (auto simp: terminator_at_def split: option.splits if_splits)

lemma find_header_terminator_less: "find_header_terminator chunk = Some j \<Longrightarrow> j < length chunk"
  by (simp add: find_header_terminator_def first_terminator_less)

lemma read_headers_unread:
  "read_headers_limited lim buf e cs = (Inr hdrs, cs') \<Longrightarrow>
     unread cs' + length hdrs = unread cs + length buf \<and> length hdrs \<le> lim"
proof (induction cs arbitrary: buf)
  case Nil
  then show ?case by (auto split: stream_end.splits)
next
  case (Cons chunk rest)
  show ?case
  proof (cases "find_header_terminator chunk")
    case None
    with Cons show ?thesis by (fastforce split: if_splits)
  next
    case (Some pos)
    then have pos: "Suc pos \<le> length chunk" using find_header_terminator_less by fastforce
    have "\<not> lim < length buf + Suc pos" "hdrs = buf @ take (Suc pos) chunk" "cs' = consume_first (Suc pos) chunk rest"
      using Cons.prems Some by (auto simp: Let_def split: if_splits)
    then show ?thesis
      using unread_consume_first [OF pos, of rest] pos by simp
  qed
qed

lemma read_request_unread:
  assumes "read_request r = (Inr (Some req), r')"
  shows "unread (b_chunks r') < unread (b_chunks r)"
    and "unread (b_chunks r) \<le> unread (b_chunks r') + MAX_REQUEST_LINE + MAX_HEADERS"
proof -
  obtain line cs where line: "read_until_limited LF MAX_REQUEST_LINE [] (b_end r) (b_chunks r) = (Inr (Some line), cs)"
    using assms by (auto simp: read_request_def split: prod.splits sum.splits option.splits)
  obtain hdrs where hdrs: "read_headers_limited MAX_HEADERS [] (b_end r) cs = (Inr hdrs, b_chunks r')"
    using assms line by (auto simp: read_request_def split: prod.splits sum.splits)
  show "unread (b_chunks r') < unread (b_chunks r)"
    "unread (b_chunks r) \<le> unread (b_chunks r') + MAX_REQUEST_LINE + MAX_HEADERS"
    using read_until_unread [OF line, unfolded list.size(3)] read_headers_unread [OF hdrs, unfolded list.size(3)]
    by linarith+
qed

lemma serve_one_unread:
  assumes "serve_one fs spec w r = (Inr True, w', r')"
  shows "unread (b_chunks r') < unread (b_chunks r)"
proof -
  obtain req where "read_request r = (Inr (Some req), r')"
    using assms by (auto simp: serve_one_def split: prod.splits sum.splits option.splits)
  then show ?thesis by (rule read_request_unread)
qed

text \<open>The loop of \<open>StaticHandler::handle\<close>.\<close>

function serve_all :: "static_fs \<Rightarrow> static_spec \<Rightarrow> writer \<Rightarrow> buf_reader \<Rightarrow> (http_error + unit) \<times> writer" where
  "serve_all fs spec w r =
     (case serve_one fs spec w r of
        (Inr True, w', r') \<Rightarrow> serve_all fs spec w' r'
      | (Inr False, w', r') \<Rightarrow> (Inr (), w')
      | (Inl e, w', r') \<Rightarrow> (Inl e, w'))"
  by pat_completeness auto

termination serve_all
  by (relation "measure (\<lambda>(fs, spec, w, r). unread (b_chunks r))") (auto dest: serve_one_unread [OF sym])

text \<open>The whole handler: the handshake of the theory \<open>Auth\<close>, then requests on the same stream.\<close>

datatype static_end = StaticRefused provider_outcome | StaticServed "http_error + unit"

definition static_handle ::
  "json_codec \<Rightarrow> hmac \<Rightarrow> static_fs \<Rightarrow> static_spec \<Rightarrow> bytes \<Rightarrow> (reader \<Rightarrow> buf_reader) \<Rightarrow> reader \<Rightarrow> writer \<Rightarrow> static_end \<times> writer" where
  "static_handle js hm fs spec n buffered r w =
     (case provider_handshake js hm (ss_shared_secret spec) (ss_name spec) n r w of
        (Authenticated, r', w') \<Rightarrow>
          (case serve_all fs spec w' (buffered r') of (res, w'') \<Rightarrow> (StaticServed res, w''))
      | (out, r', w') \<Rightarrow> (StaticRefused out, w'))"

text \<open>
  A stream that fails while requests are served ends the session, but not with an error; a frame of
  the handshake on which the decoder panics unwinds the handler.
\<close>

fun static_result :: "static_end \<Rightarrow> static_end fault + unit" where
  "static_result (StaticServed res) = Inr ()"
| "static_result (StaticRefused (UnexpectedFrame f)) = Inr ()"
| "static_result (StaticRefused BadProof) = Inr ()"
| "static_result (StaticRefused (HandshakeError Panic)) = Inl Panic"
| "static_result ending = Inl (Error ending)"

interpretation static: guarded_handler js hm "ss_shared_secret spec" "ss_name spec" n
  "static_handle js hm fs spec n buffered" "\<lambda>out. \<exists>x. out = StaticRefused x" for js hm fs spec n buffered
proof unfold_locales
  fix r w out r' w'
  assume "provider_handshake js hm (ss_shared_secret spec) (ss_name spec) n r w = (out, r', w')" and "out \<noteq> Authenticated"
  then show "(\<exists>x. fst (static_handle js hm fs spec n buffered r w) = StaticRefused x) \<and>
    snd (static_handle js hm fs spec n buffered r w) = w'"
    by (cases out) (simp_all add: static_handle_def)
qed

section \<open>Facts\<close>

text \<open>What reading a line means on the bytes of the stream, without chunks.\<close>

definition line_spec :: "u8 \<Rightarrow> nat \<Rightarrow> stream_end \<Rightarrow> bytes \<Rightarrow> http_error + bytes option" where
  "line_spec d lim e s =
     (case position (\<lambda>b. b = d) s of
        Some i \<Rightarrow> if i < lim then Inr (Some (take (Suc i) s)) else Inl (LineTooLong lim)
      | None \<Rightarrow>
          if lim < length s then Inl (LineTooLong lim)
          else (case e of Lost \<Rightarrow> Inl HttpIo | Eof \<Rightarrow> if s = [] then Inr None else Inl PeerClosedMidLine))"

lemma position_append:
  "position P (xs @ ys) =
     (case position P xs of Some i \<Rightarrow> Some i | None \<Rightarrow> map_option (\<lambda>i. length xs + i) (position P ys))"
  by (induction xs) (cases "position P ys"; auto split: option.splits)+

lemma take_consume_first [simp]: "take n chunk @ concat (consume_first n chunk rest) = chunk @ concat rest"
  by (simp add: consume_first_def append_assoc [symmetric] del: append_assoc)

lemma read_until_limited_spec:
  assumes "position (\<lambda>b. b = d) buf = None" and "length buf \<le> lim"
  shows "fst (read_until_limited d lim buf e cs) = line_spec d lim e (buf @ concat cs)"
  using assms
proof (induction cs arbitrary: buf)
  case Nil
  then show ?case by (simp add: line_spec_def split: stream_end.splits)
next
  case (Cons chunk rest)
  show ?case
  proof (cases "position (\<lambda>b. b = d) chunk")
    case None
    with Cons show ?thesis
      by (auto simp: position_append line_spec_def split: option.splits)
  next
    case (Some i)
    moreover have "i < length chunk" using position_Some [OF Some] by simp
    ultimately show ?thesis
      using Cons.prems by (auto simp: Let_def position_append line_spec_def)
  qed
qed

lemma read_until_limited_rest:
  "case fst (read_until_limited d lim buf e cs) of
     Inr (Some line) \<Rightarrow> buf @ concat cs = line @ concat (snd (read_until_limited d lim buf e cs))
   | Inr None \<Rightarrow> buf @ concat cs = []
   | Inl _ \<Rightarrow> suffix (concat (snd (read_until_limited d lim buf e cs))) (buf @ concat cs)"
proof (induction cs arbitrary: buf)
  case Nil
  then show ?case by (auto split: stream_end.splits)
next
  case (Cons chunk rest)
  show ?case
  proof (cases "position (\<lambda>b. b = d) chunk")
    case None
    with Cons [of "buf @ chunk"] show ?thesis
      by (auto simp: suffix_def split: sum.splits option.splits)
  next
    case (Some i)
    then show ?thesis
      by (auto simp: Let_def suffix_def)
  qed
qed

lemma build_response_Inr:
  assumes "build_response fs spec req = Inr resp"
  obtains url root target ctype body where "percent_decode (raw_path (rq_path req)) = Some url"
    and "fs_canonicalize fs (ss_root_dir spec) = Some root"
    and "fs_canonicalize fs (joined_path root url) = Some target" and "prefix root target"
    and "fs_is_dir fs target = Some True \<and> ss_allow_directory_listing spec \<and>
        (\<exists>es. fs_read_dir fs target = Some es \<and> body = render_directory_listing (fs_lower fs) root target es) \<or>
      fs_is_dir fs target = Some False \<and> fs_read fs target = Some body"
    and "resp = ok_response req ctype body"
    and "ctype = ''text/html; charset=utf-8'' \<or> ctype = guess_content_type target"
    and "rq_method req = ''GET'' \<or> rq_method req = ''HEAD''"
proof -
  have m: "rq_method req = ''GET'' \<or> rq_method req = ''HEAD''"
    using assms by (auto simp: build_response_def split: if_splits)
  obtain url root target is_dir where steps: "percent_decode (raw_path (rq_path req)) = Some url"
    "fs_canonicalize fs (ss_root_dir spec) = Some root" "fs_canonicalize fs (joined_path root url) = Some target"
    "prefix root target" "fs_is_dir fs target = Some is_dir"
    and rest: "(if is_dir then
        (if \<not> ss_allow_directory_listing spec then Inl 403
         else and_then (ok_or (fs_read_dir fs target) 500) (\<lambda>entries.
           Inr (ok_response req ''text/html; charset=utf-8''
             (render_directory_listing (fs_lower fs) root target entries))))
      else and_then (ok_or (fs_read fs target) 404) (\<lambda>body.
        Inr (ok_response req (guess_content_type target) body))) = (Inr resp :: nat + response)"
    using assms unfolding build_response_def if_Inl_ok_iff and_then_Inr_iff ok_or_Inr_iff not_not
    by (elim conjE exE) (rule that; assumption)
  show thesis
  proof (cases is_dir)
    case True
    with rest steps m show thesis
      by (auto simp: if_Inl_ok_iff and_then_Inr_iff intro: that)
  next
    case False
    with rest steps m show thesis
      by (auto simp: and_then_Inr_iff intro: that)
  qed
qed

lemma escape_char_safe: "\<not> set (escape_char c) \<inter> {CHR ''<'', CHR ''>'', CHR 0x22, CHR 0x27} \<noteq> {}"
  by (auto simp: escape_char_def split: if_splits)

lemma no_terminator_no_headers:
  assumes "\<forall>c\<in>set cs. find_header_terminator c = None"
  shows "\<exists>err. fst (read_headers_limited lim buf e cs) = Inl err"
  using assms
  by (induction cs arbitrary: buf) (auto split: stream_end.splits)

lemma find_header_terminator_CRLF: "find_header_terminator [CR, LF] = None"
  by (simp add: find_header_terminator_def terminator_at_def CR_def LF_def upt_rec)

lemma position_first: "\<forall>x\<in>set xs. \<not> P x \<Longrightarrow> P y \<Longrightarrow> position P (xs @ y # ys) = Some (length xs)"
  by (induction xs) auto

lemma position_None: "position P xs = None \<longleftrightarrow> (\<forall>x\<in>set xs. \<not> P x)"
  by (induction xs) auto

section \<open>Properties\<close>

text \<open>
  C15. A response never leaves the served directory: whatever the request's path holds (dots,
  percent escapes, absolute paths) and whatever links the file system has, a body that is served
  comes from a file or directory whose path is inside the canonical root and is itself canonical:
  it is what the file system's \<open>canonicalize\<close>, which resolves every link and every dot, returns for
  the root joined with the decoded path of the request. A directory is listed only if the service
  allows it, and every other request gets an error status.
\<close>

theorem served_path_inside_root:
  assumes "build_response fs spec req = Inr resp"
  shows "\<exists>root target body url. fs_canonicalize fs (ss_root_dir spec) = Some root \<and>
    percent_decode (raw_path (rq_path req)) = Some url \<and>
    fs_canonicalize fs (joined_path root url) = Some target \<and> prefix root target \<and>
    (rq_method req = ''GET'' \<and> hr_body resp = body \<or> rq_method req = ''HEAD'' \<and> hr_body resp = []) \<and>
    (''Content-Length'', show_nat (length body)) \<in> set (hr_headers resp) \<and>
    (fs_is_dir fs target = Some False \<and> fs_read fs target = Some body \<or>
     fs_is_dir fs target = Some True \<and> ss_allow_directory_listing spec \<and>
     (\<exists>es. fs_read_dir fs target = Some es \<and> body = render_directory_listing (fs_lower fs) root target es))"
proof -
  obtain url root target ctype body where b: "percent_decode (raw_path (rq_path req)) = Some url"
    "fs_canonicalize fs (ss_root_dir spec) = Some root" "fs_canonicalize fs (joined_path root url) = Some target"
    "prefix root target"
    "fs_is_dir fs target = Some True \<and> ss_allow_directory_listing spec \<and>
        (\<exists>es. fs_read_dir fs target = Some es \<and> body = render_directory_listing (fs_lower fs) root target es) \<or>
      fs_is_dir fs target = Some False \<and> fs_read fs target = Some body"
    "resp = ok_response req ctype body" "rq_method req = ''GET'' \<or> rq_method req = ''HEAD''"
    using assms by (rule build_response_Inr)
  then have "(rq_method req = ''GET'' \<and> hr_body resp = body \<or> rq_method req = ''HEAD'' \<and> hr_body resp = []) \<and>
    (''Content-Length'', show_nat (length body)) \<in> set (hr_headers resp)"
    by (auto simp: ok_response_def response_headers_def)
  with b show ?thesis by blast
qed

definition demo_fs :: static_fs where
  "demo_fs = \<lparr>fs_canonicalize = (\<lambda>p. if p = ''/srv'' then Some [''srv''] else Some [''srv'', ''a.txt'']),
     fs_is_dir = (\<lambda>t. Some False), fs_read = (\<lambda>t. if t = [''srv'', ''a.txt''] then Some [104, 105] else None),
     fs_read_dir = (\<lambda>t. None), fs_lower = (\<lambda>s. s)\<rparr>"

definition demo_static :: static_spec where
  "demo_static = \<lparr>ss_name = ''web'', ss_root_dir = ''/srv'', ss_allow_directory_listing = False, ss_shared_secret = [1]\<rparr>"

theorem served_path_inside_root_witness:
  "\<exists>resp root target. build_response demo_fs demo_static
      \<lparr>rq_method = ''GET'', rq_path = ''/../%61.txt'', rq_keep_alive = True\<rparr> = Inr resp \<and>
    fs_canonicalize demo_fs ''/srv'' = Some root \<and> fs_canonicalize demo_fs ''/srv/../a.txt'' = Some target \<and>
    prefix root target \<and> fs_read demo_fs target = Some (hr_body resp)"
proof -
  let ?req = "\<lparr>rq_method = ''GET'', rq_path = ''/../%61.txt'', rq_keep_alive = True\<rparr>"
  have d: "percent_decode (raw_path ''/../%61.txt'') = Some ''/../a.txt''"
    by code_simp
  have "\<exists>resp. build_response demo_fs demo_static ?req = Inr resp"
    using d by (simp add: build_response_def joined_path_def join_path_def path_text_def demo_fs_def demo_static_def)
  then obtain resp where r: "build_response demo_fs demo_static ?req = Inr resp" by blast
  from served_path_inside_root [OF r] r show ?thesis
    by (auto simp: demo_static_def demo_fs_def split: if_splits)
qed

text \<open>
  C37. Reading the request line does not depend on how the stream is cut into chunks: it
  returns the bytes up to the first line feed when they fit the limit, the end of the stream, or
  the error that the whole stream calls for, and it leaves exactly the bytes after the line.
\<close>

theorem line_reading_ignores_chunks:
  "fst (read_until_limited d lim [] e cs) = line_spec d lim e (concat cs) \<and>
   (case fst (read_until_limited d lim [] e cs) of
      Inr (Some line) \<Rightarrow> concat cs = line @ concat (snd (read_until_limited d lim [] e cs))
    | Inr None \<Rightarrow> concat cs = []
    | Inl _ \<Rightarrow> suffix (concat (snd (read_until_limited d lim [] e cs))) (concat cs))"
  using read_until_limited_spec [of d "[]" lim e cs] read_until_limited_rest [of d lim "[]" e cs]
  by (simp split: sum.splits option.splits)

text \<open>
  A request without header fields is not answered: after the request line the reader looks
  for an empty line preceded by another line end, so \<open>GET / HTTP/1.1\<close> followed by one empty line
  in the same chunk never completes, and the stream fails when the peer stops sending. More
  generally the end of the headers is only seen when it lies within one chunk.
\<close>

theorem bare_request_not_answered:
  assumes "LF \<notin> set line"
  shows "\<exists>err r'. read_request \<lparr>b_chunks = [line @ [LF] @ [CR, LF]], b_end = Eof\<rparr> = (Inl err, r')"
proof -
  let ?n = "Suc (length line)"
  let ?r = "\<lparr>b_chunks = [line @ [LF] @ [CR, LF]], b_end = Eof\<rparr>"
  have pos: "position (\<lambda>b. b = LF) (line @ LF # [CR, LF]) = Some (length line)"
    using assms by (intro position_first) auto
  have "\<exists>err. fst (read_headers_limited MAX_HEADERS [] Eof [[CR, LF]]) = Inl err"
    by (rule no_terminator_no_headers) (simp add: find_header_terminator_CRLF)
  then obtain err cs where hdr: "read_headers_limited MAX_HEADERS [] Eof [[CR, LF]] = (Inl err, cs)"
    by (metis prod.collapse)
  have line: "read_until_limited LF MAX_REQUEST_LINE [] Eof [line @ [LF, CR, LF]] =
    (if ?n > MAX_REQUEST_LINE then (Inl (LineTooLong MAX_REQUEST_LINE), [line @ [LF, CR, LF]])
     else (Inr (Some (line @ [LF])), [[CR, LF]]))"
    using pos by (simp add: Let_def consume_first_def)
  show ?thesis
    using hdr
    by (simp add: read_request_def line del: read_until_limited.simps read_headers_limited.simps
        split: sum.split)
qed

theorem bare_request_not_answered_witness:
  "\<exists>err r'. read_request \<lparr>b_chunks = [as_bytes ''GET / HTTP/1.1'' @ [CR] @ [LF] @ [CR, LF]], b_end = Eof\<rparr> = (Inl err, r')"
proof -
  have "LF \<notin> set (as_bytes ''GET / HTTP/1.1'' @ [CR])"
    by (simp add: as_bytes_def LF_def CR_def)
  from bare_request_not_answered [OF this] show ?thesis
    by simp
qed

text \<open>
  In a directory listing, names and links of entries are escaped (no markup character
  survives), but the directory's own path is inserted as it is into the title and the heading:
  a directory whose name holds markup puts it into the page.
\<close>

theorem listing_escapes_entries_not_title:
  "set (html_escape s) \<inter> {CHR ''<'', CHR ''>'', CHR 0x22, CHR 0x27} = {} \<and>
   sublist (''<h1>Index of /'' @ join_parts (relative_to root dir) @ ''</h1>'')
     (of_bytes (render_directory_listing lower root dir entries))"
proof
  show "set (html_escape s) \<inter> {CHR ''<'', CHR ''>'', CHR 0x22, CHR 0x27} = {}"
    using escape_char_safe unfolding html_escape_def by fastforce
  show "sublist (''<h1>Index of /'' @ join_parts (relative_to root dir) @ ''</h1>'')
     (of_bytes (render_directory_listing lower root dir entries))"
    unfolding render_directory_listing_def of_bytes_as_bytes render_listing_def
    using sublist_appendI [of "''<h1>Index of '' @ listing_title root dir @ ''</h1>''"]
    by (simp add: listing_title_def)
qed

end
