(* ===== verification/Client_Main.thy ===== *)
theory Client_Main
  imports Registration Consumer_System Static_Http Environment
begin

text \<open>
  \<^verbatim>\<open>crates/client/src/main.rs\<close>: what \<open>run_client\<close> builds from a configuration file (the handlers of
  the router, the services to register, one consumer per \<open>[[consume]]\<close> entry), the wait and the
  report of \<open>--status\<close>, the subcommand \<open>id\<close>, and the choice between them. The tasks that \<open>run_client\<close>
  spawns are in \<open>Registration\<close> and \<open>Consumer_System\<close>. The parser of the command line, logging, binding
  the endpoint and the router's dispatch loop belong to libraries; that the endpoint can be bound
  is an input. A relative path is resolved against \<open>cwd\<close>.
\<close>

section \<open>Handlers and specifications\<close>

record expose_spec =
  es_name :: string
  es_local_addr :: string
  es_shared_secret :: bytes

datatype handler = ControlResponse | ExposeHandler expose_spec | StaticHandler static_spec

definition expose_spec_of :: "expose_config \<Rightarrow> expose_spec" where
  "expose_spec_of e =
     \<lparr>es_name = ec_name e, es_local_addr = ec_local_addr e, es_shared_secret = as_bytes (ec_shared_secret e)\<rparr>"

definition static_spec_of :: "static_config \<Rightarrow> static_spec" where
  "static_spec_of s =
     \<lparr>ss_name = sc_name s, ss_root_dir = sc_root_dir s,
      ss_allow_directory_listing = sc_allow_directory_listing s, ss_shared_secret = as_bytes (sc_shared_secret s)\<rparr>"

definition consume_spec_of :: "consume_config \<Rightarrow> consume_spec" where
  "consume_spec_of c =
     \<lparr>cs_name = cc_name c, cs_local_bind = cc_local_bind c, cs_shared_secret = as_bytes (cc_shared_secret c)\<rparr>"

text \<open>
  The router's builder keeps one handler per ALPN: a later \<open>accept\<close> replaces an earlier one. The
  two loops stop at the first name without an ALPN.
\<close>

type_synonym router = "(bytes, handler) hmap"

fun accept_all :: "('a \<Rightarrow> string) \<Rightarrow> ('a \<Rightarrow> handler) \<Rightarrow> 'a list \<Rightarrow> router \<Rightarrow> alpn_error + router" where
  "accept_all name_of handler_of [] rb = Inr rb"
| "accept_all name_of handler_of (x # xs) rb =
     and_then (alpn_for_service (name_of x)) (\<lambda>alpn.
     accept_all name_of handler_of xs (hm_insert alpn (handler_of x) rb))"

definition build_router :: "root_config \<Rightarrow> alpn_error + router" where
  "build_router cfg =
     and_then (accept_all ec_name (\<lambda>e. ExposeHandler (expose_spec_of e)) (expose cfg)
       (hm_insert alpn_control ControlResponse hm_empty)) (\<lambda>rb.
     accept_all sc_name (\<lambda>s. StaticHandler (static_spec_of s)) (static_services cfg) rb)"

section \<open>Start-up\<close>

text \<open>The state of one consumer, apart from the endpoint and the status that all of them share.\<close>

record 'id consume_state =
  ct_spec :: consume_spec
  ct_server :: 'id
  ct_group_token :: string
  ct_cached_provider :: "'id option"
  ct_reconnect :: reconnect_config

record 'id client =
  cl_config :: root_config
  cl_secret_key :: bytes
  cl_node_id :: string
  cl_server :: 'id
  cl_router :: router
  cl_client_info :: string
  cl_group_token :: string
  cl_exposes :: "expose_spec list"
  cl_statics :: "static_spec list"
  cl_consumers :: "'id consume_state list"
  cl_status :: runtime_status

datatype client_error =
    ClientLoad config_error
  | DefinesGroups string
  | ClientIdentity identity_error
  | NoServerNodeId
  | BadServerNodeId string
  | BindFailed
  | HandlerAlpn alpn_error

definition unwrap_or_default :: "string option \<Rightarrow> string" where
  "unwrap_or_default o' = (case o' of Some s \<Rightarrow> s | None \<Rightarrow> [])"

definition consume_state_of :: "root_config \<Rightarrow> 'id \<Rightarrow> consume_config \<Rightarrow> 'id consume_state" where
  "consume_state_of cfg server c =
     \<lparr>ct_spec = consume_spec_of c, ct_server = server, ct_group_token = unwrap_or_default (cfg_group_token cfg),
      ct_cached_provider = None, ct_reconnect = consumer_reconnect cfg\<rparr>"

definition client_of :: "environment \<Rightarrow> root_config \<Rightarrow> bytes \<Rightarrow> string \<Rightarrow> 'id \<Rightarrow> router \<Rightarrow> 'id client" where
  "client_of en cfg key node_id server rt =
     \<lparr>cl_config = cfg, cl_secret_key = key, cl_node_id = node_id, cl_server = server, cl_router = rt,
      cl_client_info = client_info_text (en_version en),
      cl_group_token = unwrap_or_default (cfg_group_token cfg),
      cl_exposes = map expose_spec_of (expose cfg), cl_statics = map static_spec_of (static_services cfg),
      cl_consumers = map (consume_state_of cfg server) (consume cfg),
      cl_status = new_status (map cc_name (consume cfg))\<rparr>"

definition start_client :: "'id id_codec \<Rightarrow> environment \<Rightarrow> string \<Rightarrow> disk \<Rightarrow> (client_error + 'id client) \<times> disk" where
  "start_client ir en config d =
     (case load ir (en_fs en) (en_read_to_string en) (en_from_toml en) config of
        Inl e \<Rightarrow> (Inl (ClientLoad e), d)
      | Inr cfg \<Rightarrow>
          if is_server cfg then (Inl (DefinesGroups config), d)
          else
            (case env_identity en cfg d of
               (Inl e, d') \<Rightarrow> (Inl (ClientIdentity e), d')
             | (Inr (key, node_id), d') \<Rightarrow>
                 (and_then (ok_or (server_node_id cfg) NoServerNodeId) (\<lambda>txt.
                  and_then (ok_or (id_from_str ir txt) (BadServerNodeId txt)) (\<lambda>server.
                  if \<not> en_bind en then Inl BindFailed
                  else
                    (case build_router cfg of
                       Inl e \<Rightarrow> Inl (HandlerAlpn e)
                     | Inr rt \<Rightarrow> Inr (client_of en cfg key node_id server rt)))), d')))"

section \<open>Waiting for a settled state\<close>

definition settled :: "control_phase \<Rightarrow> bool" where
  "settled ph \<longleftrightarrow> ph = Registered_state \<or> ph = Reconnecting"

text \<open>
  The polling loop of \<open>status_query\<close>. Each element is one turn: the state of the snapshot and the
  clock after it; \<open>None\<close> means that the loop still polls. The result is the number of sleeps.
\<close>

fun poll_status :: "int \<Rightarrow> (control_phase \<times> int) list \<Rightarrow> nat option" where
  "poll_status deadline [] = None"
| "poll_status deadline ((ph, now) # obs) =
     (if settled ph then Some 0
      else if deadline \<le> now then Some 0
      else map_option Suc (poll_status deadline obs))"

definition POLL_INTERVAL_MS :: int where
  "POLL_INTERVAL_MS = 100"

text \<open>
  The deadline of the wait, in milliseconds. The addition \<open>Instant + Duration\<close> panics when the result
  cannot be represented; an \<open>Instant\<close> has 63 bits of seconds.
\<close>

definition INSTANT_END_MS :: int where
  "INSTANT_END_MS = 1000 * 2 ^ 63"

definition status_deadline :: "int \<Rightarrow> u64 \<Rightarrow> int option" where
  "status_deadline start wait_limit =
     (let deadline = start + 1000 * int (unat wait_limit)
      in if deadline < INSTANT_END_MS then Some deadline else None)"

text \<open>The exit of \<open>--status\<close>: the state that is read after the report has been printed.\<close>

definition status_query ::
  "int \<Rightarrow> u64 \<Rightarrow> (control_phase \<times> int) list \<Rightarrow> control_phase \<Rightarrow> ((u64 \<times> control_phase) fault + unit) option" where
  "status_query start wait_limit obs final =
     (case status_deadline start wait_limit of
        None \<Rightarrow> Some (Inl Panic)
      | Some deadline \<Rightarrow>
          map_option (\<lambda>_. if final = Registered_state then Inr () else Inl (Error (wait_limit, final)))
            (poll_status deadline obs))"

section \<open>The report of --status\<close>

record client_report =
  cr_node_id :: string
  cr_server_node_id :: "string option"
  cr_expose :: "(string \<times> string) list"
  cr_static :: "(string \<times> string \<times> bool) list"
  cr_consume :: "(string \<times> string) list"
  cr_runtime :: runtime_status

definition print_client_status :: "root_config \<Rightarrow> string \<Rightarrow> runtime_status \<Rightarrow> client_report" where
  "print_client_status cfg node_id snap = \<lparr>
     cr_node_id = node_id,
     cr_server_node_id = server_node_id cfg,
     cr_expose = map (\<lambda>e. (ec_name e, ec_local_addr e)) (expose cfg),
     cr_static = map (\<lambda>s. (sc_name s, sc_root_dir s, sc_allow_directory_listing s)) (static_services cfg),
     cr_consume = map (\<lambda>c. (cc_name c, cc_local_bind c)) (consume cfg),
     cr_runtime = snap\<rparr>"

section \<open>The subcommand id\<close>

definition run_id ::
  "environment \<Rightarrow> (bytes \<Rightarrow> string) \<Rightarrow> string option \<Rightarrow> bool \<Rightarrow> bool \<Rightarrow> (path \<Rightarrow> string) \<Rightarrow> disk
     \<Rightarrow> (identity_error + string list) \<times> disk" where
  "run_id en public_hex identity base32 quiet show_path d =
     (case (case identity of
              Some p \<Rightarrow> load_or_generate_at (en_fails en) (en_create_mode en) (en_fresh en) (path_of (en_cwd en) p) d
            | None \<Rightarrow> load_or_generate (en_fails en) (en_create_mode en) (en_fresh en) (en_config_dir en) d) of
        (Inl e, d') \<Rightarrow> (Inl e, d')
      | (Inr (key, paths), d') \<Rightarrow>
          (let s = (if base32 then en_public_text en key else public_hex key)
           in (Inr (if quiet then [s]
                    else [''meshly-core node id: '' @ s, ''identity file: '' @ show_path (ip_key_file paths)]), d')))"

section \<open>The program\<close>

text \<open>
  The command line as the argument parser leaves it. Without a subcommand the client runs with
  the defaults of \<open>run\<close>.
\<close>

record run_args =
  ra_config :: string
  ra_status :: bool
  ra_status_timeout_secs :: u64

record id_args =
  ia_identity :: "string option"
  ia_base32 :: bool
  ia_quiet :: bool

datatype command = Id id_args | Run run_args

definition default_command :: command where
  "default_command = Run \<lparr>ra_config = ''client.toml'', ra_status = False, ra_status_timeout_secs = 10\<rparr>"

text \<open>
  What the wait of \<open>--status\<close> sees: the clock at its start, one element per turn, and the status
  when the report is printed and when the exit is decided.
\<close>

record status_view =
  sv_start :: int
  sv_polls :: "(control_phase \<times> int) list"
  sv_printed :: runtime_status
  sv_final :: runtime_status

datatype client_failure = StartupFailed client_error | IdFailed identity_error

text \<open>
  A program that goes on running has no result; otherwise it prints and ends. The report of
  \<open>--status\<close> is printed before an unregistered client is turned into an error.
\<close>

datatype 'id client_run =
    ClientRunning "'id client"
  | Polling
  | Printed client_report "(u64 \<times> control_phase) + unit"
  | StatusPanic
  | Lines "string list"

definition run_client ::
  "'id id_codec \<Rightarrow> environment \<Rightarrow> status_view \<Rightarrow> run_args \<Rightarrow> disk \<Rightarrow> (client_failure + 'id client_run) \<times> disk" where
  "run_client ir en view args d =
     (case start_client ir en (ra_config args) d of
        (Inl e, d') \<Rightarrow> (Inl (StartupFailed e), d')
      | (Inr c, d') \<Rightarrow>
          ((if \<not> ra_status args then Inr (ClientRunning c)
            else
              (case status_query (sv_start view) (ra_status_timeout_secs args) (sv_polls view)
                  (co_state (rs_control (sv_final view))) of
                 None \<Rightarrow> Inr Polling
               | Some (Inl Panic) \<Rightarrow> Inr StatusPanic
               | Some (Inl (Error e)) \<Rightarrow>
                   Inr (Printed (print_client_status (cl_config c) (cl_node_id c) (sv_printed view)) (Inl e))
               | Some (Inr _) \<Rightarrow>
                   Inr (Printed (print_client_status (cl_config c) (cl_node_id c) (sv_printed view)) (Inr ())))), d'))"

definition real_main_client ::
  "'id id_codec \<Rightarrow> environment \<Rightarrow> (bytes \<Rightarrow> string) \<Rightarrow> (path \<Rightarrow> string) \<Rightarrow> status_view \<Rightarrow> command option \<Rightarrow> disk
     \<Rightarrow> (client_failure + 'id client_run) \<times> disk" where
  "real_main_client ir en public_hex show_path view cmd d =
     (case (case cmd of Some c \<Rightarrow> c | None \<Rightarrow> default_command) of
        Id a \<Rightarrow>
          (case run_id en public_hex (ia_identity a) (ia_base32 a) (ia_quiet a) show_path d of
             (Inl e, d') \<Rightarrow> (Inl (IdFailed e), d')
           | (Inr ls, d') \<Rightarrow> (Inr (Lines ls), d'))
      | Run a \<Rightarrow> run_client ir en view a d)"

text \<open>The exit code of a program that has ended; a panic of the main task is Rust's 101.\<close>

definition client_exit_code :: "client_failure + 'id client_run \<Rightarrow> nat option" where
  "client_exit_code r =
     (case r of
        Inl _ \<Rightarrow> Some 1
      | Inr (Printed rep (Inl _)) \<Rightarrow> Some 1
      | Inr (Printed rep (Inr _)) \<Rightarrow> Some 0
      | Inr (Lines ls) \<Rightarrow> Some 0
      | Inr StatusPanic \<Rightarrow> Some 101
      | Inr _ \<Rightarrow> None)"

section \<open>The router\<close>

text \<open>The entries of the two loops, and the router they build when every name is valid.\<close>

definition service_handlers :: "root_config \<Rightarrow> (bytes \<times> handler) list" where
  "service_handlers cfg =
     map (\<lambda>e. (service_alpn (ec_name e), ExposeHandler (expose_spec_of e))) (expose cfg) @
     map (\<lambda>s. (service_alpn (sc_name s), StaticHandler (static_spec_of s))) (static_services cfg)"

lemma accept_all_valid:
  assumes "\<forall>x\<in>set xs. valid_service_name (name_of x)"
  shows "accept_all name_of handler_of xs rb =
    Inr (fold (\<lambda>(k, v). hm_insert k v) (map (\<lambda>x. (service_alpn (name_of x), handler_of x)) xs) rb)"
  using assms
  by (induction xs arbitrary: rb) (simp_all add: alpn_for_valid_service)

lemma client_names_valid:
  assumes "client_config_ok fs cfg"
  shows "\<forall>e\<in>set (expose cfg). valid_service_name (ec_name e)"
    and "\<forall>s\<in>set (static_services cfg). valid_service_name (sc_name s)"
    and "distinct (map fst (service_handlers cfg))"
    and "alpn_control \<notin> fst ` set (service_handlers cfg)"
proof -
  show v: "\<forall>e\<in>set (expose cfg). valid_service_name (ec_name e)"
    "\<forall>s\<in>set (static_services cfg). valid_service_name (sc_name s)"
    using assms by (auto simp: client_config_ok_def)
  have "map fst (service_handlers cfg) =
      map service_alpn (map ec_name (expose cfg) @ map sc_name (static_services cfg))"
    by (simp add: service_handlers_def)
  moreover have "distinct (map ec_name (expose cfg) @ map sc_name (static_services cfg))"
    using assms by (auto simp: client_config_ok_def)
  ultimately show "distinct (map fst (service_handlers cfg))"
    by (simp add: distinct_map inj_on_def service_alpn_inject del: map_append)
  show "alpn_control \<notin> fst ` set (service_handlers cfg)"
    using v by (auto simp: service_handlers_def) (metis service_alpn_not_reserved(1))+
qed

lemma build_router_ok:
  assumes "client_config_ok fs cfg"
  obtains rt where "build_router cfg = Inr rt"
    and "\<And>alpn h. hm_get rt alpn = Some h \<longleftrightarrow>
       (alpn = alpn_control \<and> h = ControlResponse) \<or> (alpn, h) \<in> set (service_handlers cfg)"
proof -
  note names = client_names_valid [OF assms]
  let ?base = "hm_insert alpn_control ControlResponse hm_empty"
  let ?rt = "fold (\<lambda>(k, v). hm_insert k v) (service_handlers cfg) ?base"
  have get: "hm_get ?rt alpn = (case map_of (service_handlers cfg) alpn of Some v \<Rightarrow> Some v | None \<Rightarrow> hm_get ?base alpn)" for alpn
    by (rule hm.get_insert_all_distinct) (simp_all add: names hm_wf_def hm_keys_def hm_empty_def)
  have "hm_get ?rt alpn = Some h \<longleftrightarrow>
      (alpn = alpn_control \<and> h = ControlResponse) \<or> (alpn, h) \<in> set (service_handlers cfg)" for alpn h
  proof (cases "map_of (service_handlers cfg) alpn")
    case None
    then have "(alpn, h) \<notin> set (service_handlers cfg)"
      by (force simp: map_of_eq_None_iff)
    with None show ?thesis
      unfolding get by (auto simp: hm_empty_def)
  next
    case (Some v)
    then have "(alpn, h) \<in> set (service_handlers cfg) \<longleftrightarrow> h = v"
      by (metis map_of_eq_Some_iff [OF names(3)] option.inject)
    moreover have "alpn \<noteq> alpn_control"
      using map_of_SomeD [OF Some] names(4) by force
    ultimately show ?thesis
      unfolding get Some by auto
  qed
  moreover have "build_router cfg = Inr ?rt"
    by (simp add: build_router_def accept_all_valid names service_handlers_def)
  ultimately show thesis
    using that by blast
qed

lemma start_client_router:
  assumes "load ir (en_fs en) (en_read_to_string en) (en_from_toml en) config = Inr cfg" and "\<not> is_server cfg"
    and "env_identity en cfg d = (Inr (key, node_id), d')"
    and "server_node_id cfg = Some txt" and "id_from_str ir txt = Some server" and "en_bind en"
  obtains rt where "start_client ir en config d = (Inr (client_of en cfg key node_id server rt), d')"
    and "\<And>alpn h. hm_get rt alpn = Some h \<longleftrightarrow>
       (alpn = alpn_control \<and> h = ControlResponse) \<or> (alpn, h) \<in> set (service_handlers cfg)"
proof -
  have "client_config_ok (en_fs en) cfg"
    using assms(1,2) by (simp add: load_Inr validate_ok_iff)
  then obtain rt where rt: "build_router cfg = Inr rt"
    and "\<And>alpn h. hm_get rt alpn = Some h \<longleftrightarrow>
       (alpn = alpn_control \<and> h = ControlResponse) \<or> (alpn, h) \<in> set (service_handlers cfg)"
    using build_router_ok by blast
  moreover have "start_client ir en config d = (Inr (client_of en cfg key node_id server rt), d')"
    using assms rt by (simp add: start_client_def)
  ultimately show thesis
    using that by blast
qed

section \<open>Polling\<close>

lemma poll_status_deadline:
  assumes "i < length obs" and "deadline \<le> snd (obs ! i)"
  shows "\<exists>k\<le>i. poll_status deadline obs = Some k"
  using assms
proof (induction obs arbitrary: i)
  case Nil
  then show ?case by simp
next
  case (Cons ob obs)
  obtain ph now where ob: "ob = (ph, now)" by fastforce
  show ?case
  proof (cases i)
    case 0
    with Cons.prems ob show ?thesis by auto
  next
    case (Suc j)
    with Cons ob obtain k where "k \<le> j" "poll_status deadline obs = Some k" by auto
    with Suc ob show ?thesis by auto
  qed
qed

section \<open>An example client\<close>

definition demo_client_config :: root_config where
  "demo_client_config = root_config_default\<lparr>server_node_id := Some ''ii'', cfg_group_token := Some ''t'',
     expose := [\<lparr>ec_name = ''ssh'', ec_local_addr = ''127.0.0.1:22'', ec_shared_secret = ''s''\<rparr>],
     static_services := [\<lparr>sc_name = ''docs'', sc_root_dir = ''/srv'', sc_allow_directory_listing = False,
       sc_shared_secret = ''s2''\<rparr>],
     consume := [\<lparr>cc_name = ''db'', cc_local_bind = ''127.0.0.1:5432'', cc_shared_secret = ''s3''\<rparr>]\<rparr>"

definition demo_env :: environment where
  "demo_env = \<lparr>en_fs = \<lparr>path_exists = \<lambda>_. True, path_is_dir = \<lambda>_. True\<rparr>,
     en_read_to_string = (\<lambda>_. Some []), en_from_toml = (\<lambda>_. Some demo_client_config), en_cwd = [],
     en_config_dir = Some [''home''], en_fails = (\<lambda>_. False), en_create_mode = 420,
     en_fresh = replicate 32 1, en_public_text = (\<lambda>_. ''me''), en_bind = True, en_version = ''1''\<rparr>"

lemma demo_client_facts:
  "load unary_ids (en_fs demo_env) (en_read_to_string demo_env) (en_from_toml demo_env) ''client.toml'' = Inr demo_client_config"
  "\<not> is_server demo_client_config" "server_node_id demo_client_config = Some ''ii''"
  "id_from_str unary_ids ''ii'' = Some 2" "en_bind demo_env"
  by code_simp+

lemma demo_client_identity:
  "\<exists>d'. env_identity demo_env demo_client_config \<lparr>d_files = [], d_dirs = []\<rparr> = (Inr (replicate 32 1, ''me''), d')"
  by (simp add: env_identity_def load_identity_def load_or_generate_def default_dir_def load_or_generate_at_def parent_def
      demo_env_def demo_client_config_def root_config_default_def Let_def path_present_def restrict_dir_def
      create_dir_all_def)

lemma demo_client_starts:
  "\<exists>c d'. start_client unary_ids demo_env ''client.toml'' \<lparr>d_files = [], d_dirs = []\<rparr> = (Inr c, d')"
  using demo_client_identity
  by (auto elim: start_client_router [OF demo_client_facts(1,2) _ demo_client_facts(3-5)])

section \<open>Properties\<close>

lemma clamp_backoff_max: "clamp_backoff x lo = max x lo"
  by (auto simp: clamp_backoff_def max_def)

text \<open>
  C34. What a client's configuration file starts. When the file loads, is a client's, the identity is
  available and the endpoint can be bound, only the server's id decides: an id that does not parse
  ends the start-up with that error (loading has checked only that it is not empty). Otherwise
  \<open>run_client\<close> gets to its tasks. Its exposed, static and consumed services are those of the file, in
  order, each with its own name, address or directory and secret; every consumer starts without a
  cached provider, with the group token of the file and with the file's retry delays raised to at
  least 10 and 100 milliseconds. The router sends an ALPN to a handler exactly when it is the
  control ALPN or the ALPN of an exposed or static service, and then to the handler of that very
  service: no entry shadows another.
\<close>

theorem client_start_complete:
  assumes "load ir (en_fs en) (en_read_to_string en) (en_from_toml en) config = Inr cfg" and "\<not> is_server cfg"
    and "env_identity en cfg d = (Inr (key, node_id), d')" and "server_node_id cfg = Some txt" and "en_bind en"
  shows "case id_from_str ir txt of
      None \<Rightarrow> start_client ir en config d = (Inl (BadServerNodeId txt), d')
    | Some server \<Rightarrow>
      (\<exists>c. start_client ir en config d = (Inr c, d') \<and>
        cl_server c = server \<and> cl_secret_key c = key \<and> cl_node_id c = node_id \<and>
        Some (cl_group_token c) = cfg_group_token cfg \<and>
        cl_exposes c = map (\<lambda>e. \<lparr>es_name = ec_name e, es_local_addr = ec_local_addr e,
          es_shared_secret = as_bytes (ec_shared_secret e)\<rparr>) (expose cfg) \<and>
        cl_statics c = map (\<lambda>s. \<lparr>ss_name = sc_name s, ss_root_dir = sc_root_dir s,
          ss_allow_directory_listing = sc_allow_directory_listing s,
          ss_shared_secret = as_bytes (sc_shared_secret s)\<rparr>) (static_services cfg) \<and>
        map ct_spec (cl_consumers c) = map (\<lambda>k. \<lparr>cs_name = cc_name k, cs_local_bind = cc_local_bind k,
          cs_shared_secret = as_bytes (cc_shared_secret k)\<rparr>) (consume cfg) \<and>
        (\<forall>k\<in>set (cl_consumers c). ct_server k = server \<and> Some (ct_group_token k) = cfg_group_token cfg \<and>
          ct_cached_provider k = None \<and>
          ct_reconnect k = \<lparr>initial_backoff_ms = max (initial_backoff_ms (reconnect cfg)) 10,
            max_backoff_ms = max (max_backoff_ms (reconnect cfg)) 100, prefer_direct = prefer_direct (reconnect cfg)\<rparr>) \<and>
        (\<forall>alpn h. hm_get (cl_router c) alpn = Some h \<longleftrightarrow>
           (alpn = as_bytes ''meshly-core/control'' \<and> h = ControlResponse) \<or>
           (\<exists>e\<in>set (cl_exposes c). alpn = as_bytes (''meshly-core/'' @ es_name e) \<and> h = ExposeHandler e) \<or>
           (\<exists>s\<in>set (cl_statics c). alpn = as_bytes (''meshly-core/'' @ ss_name s) \<and> h = StaticHandler s)))"
proof (cases "id_from_str ir txt")
  case None
  then show ?thesis
    using assms by (simp add: start_client_def)
next
  case (Some server)
  have ok: "client_config_ok (en_fs en) cfg"
    using assms(1,2) by (simp add: load_Inr validate_ok_iff)
  obtain token where token: "cfg_group_token cfg = Some token"
    using ok by (auto simp: client_config_ok_def)
  obtain rt where st: "start_client ir en config d = (Inr (client_of en cfg key node_id server rt), d')"
    and get: "\<And>alpn h. hm_get rt alpn = Some h \<longleftrightarrow>
       (alpn = alpn_control \<and> h = ControlResponse) \<or> (alpn, h) \<in> set (service_handlers cfg)"
    using start_client_router [OF assms(1-4) Some assms(5)] by blast
  let ?c = "client_of en cfg key node_id server rt"
  have "(alpn, h) \<in> set (service_handlers cfg) \<longleftrightarrow>
      (\<exists>e\<in>set (cl_exposes ?c). alpn = as_bytes (''meshly-core/'' @ es_name e) \<and> h = ExposeHandler e) \<or>
      (\<exists>s\<in>set (cl_statics ?c). alpn = as_bytes (''meshly-core/'' @ ss_name s) \<and> h = StaticHandler s)" for alpn h
    by (auto simp: service_handlers_def client_of_def expose_spec_of_def static_spec_of_def service_alpn_def)
  with st get token show ?thesis
    unfolding Some option.case
    by (intro exI [of _ ?c]) (simp add: client_of_def expose_spec_of_def static_spec_of_def consume_state_of_def
        consume_spec_of_def consumer_reconnect_def clamp_backoff_max unwrap_or_default_def alpn_control_def
        ALPN_CONTROL_def comp_def)
qed

theorem client_start_complete_witness:
  "\<exists>c d'. start_client unary_ids demo_env ''client.toml'' \<lparr>d_files = [], d_dirs = []\<rparr> = (Inr c, d') \<and>
     hm_get (cl_router c) (as_bytes ''meshly-core/ssh'') =
       Some (ExposeHandler \<lparr>es_name = ''ssh'', es_local_addr = ''127.0.0.1:22'', es_shared_secret = as_bytes ''s''\<rparr>) \<and>
     map ct_spec (cl_consumers c) =
       [\<lparr>cs_name = ''db'', cs_local_bind = ''127.0.0.1:5432'', cs_shared_secret = as_bytes ''s3''\<rparr>]"
proof -
  let ?d = "\<lparr>d_files = [], d_dirs = []\<rparr>"
  let ?e = "\<lparr>es_name = ''ssh'', es_local_addr = ''127.0.0.1:22'', es_shared_secret = as_bytes ''s''\<rparr>"
  note f = demo_client_facts
  obtain d' where i: "env_identity demo_env demo_client_config ?d = (Inr (replicate 32 1, ''me''), d')"
    using demo_client_identity by blast
  obtain c where c: "start_client unary_ids demo_env ''client.toml'' ?d = (Inr c, d')"
    and ex: "cl_exposes c = map (\<lambda>e. \<lparr>es_name = ec_name e, es_local_addr = ec_local_addr e,
          es_shared_secret = as_bytes (ec_shared_secret e)\<rparr>) (expose demo_client_config)"
    and cs: "map ct_spec (cl_consumers c) = map (\<lambda>k. \<lparr>cs_name = cc_name k, cs_local_bind = cc_local_bind k,
          cs_shared_secret = as_bytes (cc_shared_secret k)\<rparr>) (consume demo_client_config)"
    and router: "\<And>alpn h. hm_get (cl_router c) alpn = Some h \<longleftrightarrow>
           (alpn = as_bytes ''meshly-core/control'' \<and> h = ControlResponse) \<or>
           (\<exists>e\<in>set (cl_exposes c). alpn = as_bytes (''meshly-core/'' @ es_name e) \<and> h = ExposeHandler e) \<or>
           (\<exists>s\<in>set (cl_statics c). alpn = as_bytes (''meshly-core/'' @ ss_name s) \<and> h = StaticHandler s)"
    using client_start_complete [OF f(1,2) i f(3,5)] unfolding f(4) option.case by blast
  have e: "cl_exposes c = [?e]"
    unfolding ex by (simp add: demo_client_config_def)
  have "hm_get (cl_router c) (as_bytes ''meshly-core/ssh'') = Some (ExposeHandler ?e)"
    unfolding router e by simp
  moreover have "map ct_spec (cl_consumers c) =
      [\<lparr>cs_name = ''db'', cs_local_bind = ''127.0.0.1:5432'', cs_shared_secret = as_bytes ''s3''\<rparr>]"
    unfolding cs by (simp add: demo_client_config_def)
  ultimately show ?thesis
    using c by (intro exI conjI)
qed

lemma status_query_ends:
  assumes "\<forall>i<length obs. start + POLL_INTERVAL_MS * int i \<le> snd (obs ! i)" and "10 * unat limit < length obs"
    and "status_deadline start limit \<noteq> None"
  shows "status_query start limit obs final =
    Some (if final = Registered_state then Inr () else Inl (Error (limit, final)))"
proof -
  let ?deadline = "start + 1000 * int (unat limit)"
  have "?deadline \<le> snd (obs ! (10 * unat limit))"
    using assms(1,2) by (auto simp: POLL_INTERVAL_MS_def)
  then obtain k where "poll_status ?deadline obs = Some k"
    using poll_status_deadline [OF assms(2)] by blast
  moreover have "status_deadline start limit = Some ?deadline"
    using assms(3) by (auto simp: status_deadline_def Let_def split: if_splits)
  ultimately show ?thesis
    by (simp add: status_query_def)
qed

text \<open>
  C40. The client's \<open>run --status\<close> always ends: once the client has started, the loop that sleeps for
  its interval between two readings of the clock stops after at most ten sleeps per second of the
  timeout, whatever states it sees; the report lists the services of the configuration file, and
  the exit code is 0 exactly when the last state is \<open>Registered\<close>, otherwise 1. The timeout has to be
  one whose deadline the clock can represent.
\<close>

theorem client_status_ends:
  assumes "start_client ir en (ra_config args) d = (Inr c, d')" and "ra_status args"
    and "\<forall>i<length (sv_polls view). sv_start view + POLL_INTERVAL_MS * int i \<le> snd (sv_polls view ! i)"
    and "10 * unat (ra_status_timeout_secs args) < length (sv_polls view)"
    and "status_deadline (sv_start view) (ra_status_timeout_secs args) \<noteq> None"
  shows "\<exists>r rep. real_main_client ir en public_hex show_path view (Some (Run args)) d = (Inr (Printed rep r), d') \<and>
    client_exit_code (Inr (Printed rep r)) =
      Some (if co_state (rs_control (sv_final view)) = Registered_state then 0 else 1) \<and>
    cr_node_id rep = cl_node_id c \<and> cr_runtime rep = sv_printed view \<and>
    map fst (cr_expose rep) = map ec_name (expose (cl_config c)) \<and>
    map fst (cr_static rep) = map sc_name (static_services (cl_config c)) \<and>
    map fst (cr_consume rep) = map cc_name (consume (cl_config c))"
  using assms(1,2) status_query_ends [OF assms(3,4,5)]
  by (simp add: real_main_client_def run_client_def client_exit_code_def print_client_status_def comp_def)

theorem client_status_ends_witness:
  "\<exists>r rep d'. real_main_client unary_ids demo_env (\<lambda>_. []) (\<lambda>_. [])
      \<lparr>sv_start = 0, sv_polls = map (\<lambda>i. (Registering, 100 * int i)) [0..<11], sv_printed = new_status [],
       sv_final = new_status []\<rparr>
      (Some (Run \<lparr>ra_config = ''client.toml'', ra_status = True, ra_status_timeout_secs = 1\<rparr>))
      \<lparr>d_files = [], d_dirs = []\<rparr> = (Inr (Printed rep r), d') \<and>
    client_exit_code (Inr (Printed rep r)) = Some 1"
proof -
  let ?args = "\<lparr>ra_config = ''client.toml'', ra_status = True, ra_status_timeout_secs = 1\<rparr>"
  let ?view = "\<lparr>sv_start = 0, sv_polls = map (\<lambda>i. (Registering, 100 * int i)) [0..<11], sv_printed = new_status [],
    sv_final = new_status []\<rparr>"
  obtain c d' where s: "start_client unary_ids demo_env (ra_config ?args) \<lparr>d_files = [], d_dirs = []\<rparr> = (Inr c, d')"
    using demo_client_starts by auto
  have st: "ra_status ?args" by simp
  have polls: "\<forall>i<length (sv_polls ?view). sv_start ?view + POLL_INTERVAL_MS * int i \<le> snd (sv_polls ?view ! i)"
    "10 * unat (ra_status_timeout_secs ?args) < length (sv_polls ?view)"
    "status_deadline (sv_start ?view) (ra_status_timeout_secs ?args) \<noteq> None"
    by (simp_all add: POLL_INTERVAL_MS_def status_deadline_def INSTANT_END_MS_def del: upt_Suc)
  have f: "co_state (rs_control (sv_final ?view)) \<noteq> Registered_state"
    by (simp add: new_status_def control_status_default_def)
  show ?thesis
    using client_status_ends [OF s st polls, of "\<lambda>_. []" "\<lambda>_. []"] f by auto
qed

text \<open>
  A timeout of 2^63 seconds or more, which the argument parser accepts, does not make the client wait
  for ever: it panics before the first reading of the status and prints no report.
\<close>

theorem huge_status_timeout_panics:
  assumes "start_client ir en (ra_config args) d = (Inr c, d')" and "ra_status args"
    and "2 ^ 63 \<le> unat (ra_status_timeout_secs args)" and "0 \<le> sv_start view"
  shows "real_main_client ir en public_hex show_path view (Some (Run args)) d = (Inr StatusPanic, d') \<and>
    client_exit_code (Inr StatusPanic :: client_failure + 'id client_run) = Some 101"
proof -
  have "int (2 ^ 63) \<le> int (unat (ra_status_timeout_secs args))"
    using assms(3) by (simp only: of_nat_le_iff)
  then have "status_deadline (sv_start view) (ra_status_timeout_secs args) = None"
    using assms(4) by (simp add: status_deadline_def INSTANT_END_MS_def Let_def)
  then show ?thesis
    using assms(1,2) by (simp add: real_main_client_def run_client_def status_query_def client_exit_code_def)
qed

end
