(* ===== verification/Static_Framing.thy ===== *)
theory Static_Framing
  imports Static_Http
begin

text \<open>
  How the responses of \<open>client/src/static_http.rs\<close> are delimited on the wire. The model of the
  code is in \<open>Static_Http\<close>; this theory shows that what \<open>write_response\<close> sends can be taken
  apart again: no text that depends on the request, the configuration or the file system can put
  a line break into the head, so the head ends where the writer ended it, and the announced length
  is the length of the body that follows.
\<close>

section \<open>Finding the end of a head\<close>

lemma terminator_at_Suc: "terminator_at (x # xs) (Suc i) = map_option Suc (terminator_at xs i)"
  by (simp add: terminator_at_def add.commute [of _ 3])

lemma first_terminator_Suc: "first_terminator (x # xs) (map Suc is) = map_option Suc (first_terminator xs is)"
  by (induction "is") (auto simp: terminator_at_Suc split: option.splits)

lemma find_header_terminator_Cons:
  "find_header_terminator (x # xs) =
     (case terminator_at (x # xs) 0 of Some j \<Rightarrow> Some j | None \<Rightarrow> map_option Suc (find_header_terminator xs))"
proof -
  have "[0..<length (x # xs)] = 0 # map Suc [0..<length xs]"
    by (simp add: upt_conv_Cons map_Suc_upt del: upt_Suc)
  then show ?thesis
    unfolding find_header_terminator_def by (simp add: first_terminator_Suc del: upt_Suc split: option.split)
qed

text \<open>The bytes of a line: none of them is part of a line break.\<close>

definition line_bytes :: "bytes \<Rightarrow> bool" where
  "line_bytes l \<longleftrightarrow> l \<noteq> [] \<and> CR \<notin> set l \<and> LF \<notin> set l"

lemma find_header_terminator_plain:
  "CR \<notin> set l \<Longrightarrow> LF \<notin> set l \<Longrightarrow>
   find_header_terminator (l @ bs) = map_option (\<lambda>j. j + length l) (find_header_terminator bs)"
proof (induction l)
  case (Cons x l)
  then have "terminator_at ((x # l) @ bs) 0 = None"
    by (auto simp: terminator_at_def)
  with Cons show ?case
    by (simp add: find_header_terminator_Cons option.map_comp o_def)
qed (simp add: option.map_ident)

lemma CR_not_LF [simp]: "CR \<noteq> LF" "LF \<noteq> CR"
  by (simp_all add: CR_def LF_def)

lemma find_header_terminator_break:
  assumes "x \<noteq> CR" and "x \<noteq> LF"
  shows "find_header_terminator (CR # LF # x # bs) = map_option (\<lambda>j. j + 2) (find_header_terminator (x # bs))"
  using assms
  by (simp add: find_header_terminator_Cons [of CR] find_header_terminator_Cons [of LF] terminator_at_def
      option.map_comp o_def)

lemma find_header_terminator_end: "find_header_terminator (CR # LF # CR # LF # bs) = Some 3"
  by (simp add: find_header_terminator_Cons terminator_at_def)

lemma find_header_terminator_lines:
  assumes "ls \<noteq> []" and "\<forall>l\<in>set ls. line_bytes l"
  shows "find_header_terminator (concat (map (\<lambda>l. l @ [CR, LF]) ls) @ [CR, LF] @ bs) =
    Some (length (concat (map (\<lambda>l. l @ [CR, LF]) ls)) + 1)"
  using assms
proof (induction ls rule: list_nonempty_induct)
  case (single l)
  then show ?case
    by (simp add: line_bytes_def find_header_terminator_plain find_header_terminator_end)
next
  case (cons l ls)
  then obtain x l' ls' where ls: "ls = (x # l') # ls'" "x \<noteq> CR" "x \<noteq> LF"
    by (cases ls; cases "hd ls") (auto simp: line_bytes_def)
  let ?rest = "concat (map (\<lambda>l. l @ [CR, LF]) ls) @ [CR, LF] @ bs"
  have "find_header_terminator (CR # LF # ?rest) = map_option (\<lambda>j. j + 2) (find_header_terminator ?rest)"
    using ls by (simp add: find_header_terminator_break)
  with cons show ?case
    by (simp add: line_bytes_def find_header_terminator_plain)
qed

section \<open>The text of a head\<close>

definition line_text :: "string \<Rightarrow> bool" where
  "line_text s \<longleftrightarrow> CHR 0x0D \<notin> set s \<and> CHR 0x0A \<notin> set s"

lemma line_text_simps [simp]:
  "line_text []"
  "line_text (c # s) \<longleftrightarrow> c \<noteq> CHR 0x0D \<and> c \<noteq> CHR 0x0A \<and> line_text s"
  "line_text (s @ t) \<longleftrightarrow> line_text s \<and> line_text t"
  by (auto simp: line_text_def)

lemma as_bytes_CRLF [simp]: "as_bytes CRLF = [CR, LF]"
  by (simp add: as_bytes_def CRLF_def CR_def LF_def)

lemma line_bytes_as_bytes: "line_text s \<Longrightarrow> s \<noteq> [] \<Longrightarrow> line_bytes (as_bytes s)"
proof -
  have byte: "(of_nat (of_char c) :: u8) = of_nat (of_char d) \<longleftrightarrow> c = d" for c d
    using as_bytes_inject [of "[c]" "[d]"] by (simp add: as_bytes_def)
  have "CR = of_nat (of_char (CHR 0x0D))" "LF = of_nat (of_char (CHR 0x0A))"
    by (simp_all add: CR_def LF_def)
  then have "CR \<in> set (as_bytes s) \<longleftrightarrow> CHR 0x0D \<in> set s" "LF \<in> set (as_bytes s) \<longleftrightarrow> CHR 0x0A \<in> set s"
    unfolding as_bytes_def set_map image_iff by (metis byte)+
  then show "line_text s \<Longrightarrow> s \<noteq> [] \<Longrightarrow> line_bytes (as_bytes s)"
    by (simp add: line_text_def line_bytes_def as_bytes_def)
qed

lemma digit_char:
  assumes "d < 10"
  shows "digit_value (char_of (48 + d)) = Some d" and "char_of (48 + d) \<noteq> CHR ''+''" and "line_text [char_of (48 + d)]"
proof -
  have code: "(of_char (char_of (48 + d) :: char) :: nat) = 48 + d"
    using assms by simp
  then have "char_of (48 + d) \<noteq> c" if "(of_char c :: nat) < 48" for c
    using that by auto
  from this [of "CHR ''+''"] this [of "CHR 0x0D"] this [of "CHR 0x0A"]
  show "char_of (48 + d) \<noteq> CHR ''+''" "line_text [char_of (48 + d)]" by simp_all
  show "digit_value (char_of (48 + d)) = Some d"
    using assms code by (simp add: digit_value_def)
qed

lemma show_nat_text: "line_text (show_nat n) \<and> CHR ''+'' \<notin> set (show_nat n) \<and> show_nat n \<noteq> []"
proof (induction n rule: show_nat.induct)
  case (1 n)
  then show ?case
    using digit_char [of n] digit_char [of "n mod 10"]
    by (subst (1 2 3) show_nat.simps) (auto simp del: line_text_simps(2) simp: line_text_simps(3))
qed

lemma parse_digits_append:
  "parse_digits acc (xs @ ys) = Option.bind (parse_digits acc xs) (\<lambda>a. parse_digits a ys)"
  by (induction xs arbitrary: acc) (auto split: option.splits)

lemma parse_digits_show_nat: "n < 2 ^ 64 \<Longrightarrow> parse_digits 0 (show_nat n) = Some n"
proof (induction n rule: show_nat.induct)
  case (1 n)
  then show ?case
    using digit_char(1) [of n] digit_char(1) [of "n mod 10"]
    by (subst show_nat.simps) (auto simp: parse_digits_append)
qed

lemma parse_usize_show_nat: "n < 2 ^ 64 \<Longrightarrow> parse_usize (show_nat n) = Some n"
  using show_nat_text [of n] parse_digits_show_nat [of n]
  by (auto simp: parse_usize_def Let_def simp del: parse_digits.simps split: list.splits)

lemma line_text_tables [simp]:
  "line_text (guess_content_type path)" "line_text (status_text_of status)" "line_text (connection_text keep)"
  by (simp_all add: guess_content_type_def status_text_of_def connection_text_def split: option.split)

definition head_lines :: "response \<Rightarrow> string list" where
  "head_lines r = (''HTTP/1.1 '' @ show_nat (hr_status r) @ '' '' @ hr_status_text r) #
     map (\<lambda>(k, v). k @ '': '' @ v) (hr_headers r)"

lemma response_head_lines:
  "as_bytes (response_head r) = concat (map (\<lambda>l. l @ [CR, LF]) (map as_bytes (head_lines r))) @ [CR, LF]"
proof -
  have "as_bytes (concat (map (\<lambda>(k, v). k @ '': '' @ v @ CRLF) hs)) =
      concat (map (\<lambda>l. l @ [CR, LF]) (map as_bytes (map (\<lambda>(k, v). k @ '': '' @ v) hs)))" for hs
    by (induction hs) (auto simp: as_bytes_def CRLF_def CR_def LF_def)
  moreover have "as_bytes (c # s) = of_nat (of_char c) # as_bytes s" for c s
    by (simp add: as_bytes_def)
  ultimately show ?thesis
    by (simp add: response_head_def head_lines_def as_bytes_append)
qed

lemma response_head_delimited:
  assumes "line_text (hr_status_text r)" and "\<forall>(k, v)\<in>set (hr_headers r). line_text k \<and> line_text v"
  shows "find_header_terminator (as_bytes (response_head r) @ bs) = Some (length (response_head r) - 1)"
proof -
  have "\<forall>l\<in>set (map as_bytes (head_lines r)). line_bytes l"
    using assms show_nat_text by (auto simp: head_lines_def intro!: line_bytes_as_bytes)
  moreover have "length (response_head r) = length (as_bytes (response_head r))" by simp
  ultimately show ?thesis
    unfolding response_head_lines append_assoc
    by (subst find_header_terminator_lines) (simp_all add: head_lines_def)
qed

text \<open>Every response has the same three header fields, with texts of the program's own.\<close>

lemma respond_shape:
  obtains ctype n where "hr_headers (respond fs spec req) = response_headers ctype n (rq_keep_alive req)"
    and "line_text ctype" and "line_text (hr_status_text (respond fs spec req))"
    and "if rq_method req = ''HEAD'' then hr_body (respond fs spec req) = [] else length (hr_body (respond fs spec req)) = n"
proof (cases "build_response fs spec req")
  case (Inl status)
  then show ?thesis
    by (intro that [of "''text/plain; charset=utf-8''" "length (hr_body (respond fs spec req))"])
      (simp_all add: respond_def error_response_def Let_def)
next
  case (Inr resp)
  then obtain ctype body where "resp = ok_response req ctype body" "line_text ctype"
    by (elim build_response_Inr) auto
  with Inr show ?thesis
    by (intro that [of ctype "length body"]) (simp_all add: respond_def ok_response_def)
qed

lemma write_all_ok: "write_all bs w = (Inr u, w') \<Longrightarrow> w_out w' = w_out w @ bs"
  by (auto simp: write_all_def split: option.splits if_splits)

lemma write_response_ok:
  assumes "write_response r w = (Inr u, w')"
  shows "w_out w' = w_out w @ as_bytes (response_head r) @ hr_body r"
  using assms by (auto simp: write_response_def split: prod.splits sum.splits if_splits dest!: write_all_ok)

section \<open>Properties\<close>

text \<open>
  C38. A reader can tell where every response ends. A successful write adds a head and a body to
  the stream. The head is a status line, a Content-Type, a Content-Length and a Connection field, each
  on a line of its own, and an empty line, and for any request, file name and file content the
  first end of a header block in the bytes is the end of this head. The number that is printed as
  Content-Length reads back as itself and is the number of bytes that follow the head (none follow
  for HEAD), and the Connection field says whether the connection is kept.
\<close>

theorem response_framing:
  assumes "write_response (respond fs spec req) w = (Inr (), w')"
  shows "\<exists>head body reason ctype n. w_out w' = w_out w @ as_bytes head @ body \<and>
    head = ''HTTP/1.1 '' @ show_nat (hr_status (respond fs spec req)) @ '' '' @ reason @ CRLF
      @ ''Content-Type: '' @ ctype @ CRLF
      @ ''Content-Length: '' @ show_nat n @ CRLF
      @ ''Connection: '' @ (if rq_keep_alive req then ''keep-alive'' else ''close'') @ CRLF @ CRLF \<and>
    line_text reason \<and> line_text ctype \<and>
    find_header_terminator (as_bytes head @ body) = Some (length head - 1) \<and>
    (n < 2 ^ 64 \<longrightarrow> parse_usize (show_nat n) = Some n) \<and>
    (if rq_method req = ''HEAD'' then body = [] else length body = n)"
proof -
  let ?r = "respond fs spec req"
  obtain ctype n where shape: "hr_headers ?r = response_headers ctype n (rq_keep_alive req)" "line_text ctype"
    "line_text (hr_status_text ?r)" "if rq_method req = ''HEAD'' then hr_body ?r = [] else length (hr_body ?r) = n"
    by (rule respond_shape)
  then have "\<forall>(k, v)\<in>set (hr_headers ?r). line_text k \<and> line_text v"
    using show_nat_text by (simp add: response_headers_def)
  with shape(3) have "find_header_terminator (as_bytes (response_head ?r) @ hr_body ?r) =
      Some (length (response_head ?r) - 1)"
    by (rule response_head_delimited)
  moreover have "response_head ?r = ''HTTP/1.1 '' @ show_nat (hr_status ?r) @ '' '' @ hr_status_text ?r @ CRLF
      @ ''Content-Type: '' @ ctype @ CRLF
      @ ''Content-Length: '' @ show_nat n @ CRLF
      @ ''Connection: '' @ (if rq_keep_alive req then ''keep-alive'' else ''close'') @ CRLF @ CRLF"
    by (simp add: response_head_def shape(1) response_headers_def connection_text_def)
  ultimately show ?thesis
    using write_response_ok [OF assms] shape(2-4) parse_usize_show_nat by blast
qed

theorem response_framing_witness:
  "\<exists>w' reason ctype. write_response (respond demo_fs demo_static
      \<lparr>rq_method = ''GET'', rq_path = ''/a.txt'', rq_keep_alive = True\<rparr>) \<lparr>w_out = [], w_budget = None\<rparr> = (Inr (), w') \<and>
    (\<exists>body n. w_out w' = as_bytes (''HTTP/1.1 '' @ show_nat (hr_status (respond demo_fs demo_static
         \<lparr>rq_method = ''GET'', rq_path = ''/a.txt'', rq_keep_alive = True\<rparr>)) @ '' '' @ reason @ CRLF
       @ ''Content-Type: '' @ ctype @ CRLF @ ''Content-Length: '' @ show_nat n @ CRLF
       @ ''Connection: keep-alive'' @ CRLF @ CRLF) @ body \<and> length body = n)"
proof -
  let ?req = "\<lparr>rq_method = ''GET'', rq_path = ''/a.txt'', rq_keep_alive = True\<rparr>"
  have "\<exists>w'. write_response r \<lparr>w_out = [], w_budget = None\<rparr> = (Inr (), w')" for r
    by (cases "hr_body r = []") (simp_all add: write_response_def write_all_def)
  then obtain w' where w: "write_response (respond demo_fs demo_static ?req) \<lparr>w_out = [], w_budget = None\<rparr> = (Inr (), w')"
    by blast
  show ?thesis
    using w response_framing [OF w] by fastforce
qed

end
