(* ===== verification/Static_Session.thy ===== *)
theory Static_Session
  imports Static_Framing Connected
begin

text \<open>
  A whole session of \<open>client/src/static_http.rs\<close> as a well-behaved HTTP/1.1 client sees it: it
  authenticates, sends requests with a \<open>Host\<close> field and perhaps \<open>Connection: close\<close>, and may send
  several of them before it reads an answer. The printer of these requests is the specification
  against which the parser of \<open>Static_Http\<close> is shown to be right.
\<close>

section \<open>Requests as a client prints them\<close>

record client_request =
  cq_method :: string
  cq_path :: string
  cq_host :: string
  cq_close :: bool

definition request_line :: "client_request \<Rightarrow> string" where
  "request_line q = cq_method q @ '' '' @ cq_path q @ '' HTTP/1.1''"

definition field_lines :: "client_request \<Rightarrow> string list" where
  "field_lines q = (''Host: '' @ cq_host q) # (if cq_close q then [''Connection: close''] else [])"

definition fields_text :: "client_request \<Rightarrow> string" where
  "fields_text q = concat (map (\<lambda>l. l @ CRLF) (field_lines q)) @ CRLF"

definition request_bytes :: "client_request \<Rightarrow> bytes" where
  "request_bytes q = as_bytes (request_line q @ CRLF @ fields_text q)"

text \<open>The words of a request: printable ASCII characters without white space.\<close>

definition word_text :: "string \<Rightarrow> bool" where
  "word_text s \<longleftrightarrow> s \<noteq> [] \<and> list_all (\<lambda>c. 33 \<le> (of_char c :: nat) \<and> (of_char c :: nat) < 127) s"

definition request_ok :: "client_request \<Rightarrow> bool" where
  "request_ok q \<longleftrightarrow> word_text (cq_method q) \<and> word_text (cq_path q) \<and> word_text (cq_host q) \<and>
     length (request_line q) + 2 \<le> MAX_REQUEST_LINE \<and> length (fields_text q) \<le> MAX_HEADERS"

text \<open>What the server makes of it.\<close>

definition understood :: "client_request \<Rightarrow> request" where
  "understood q = \<lparr>rq_method = cq_method q, rq_path = cq_path q, rq_keep_alive = \<not> cq_close q\<rparr>"

section \<open>Characters\<close>

lemma word_text_char:
  assumes "word_text s" and "(of_char c :: nat) < 33"
  shows "c \<notin> set s"
  using assms by (auto simp: word_text_def list_all_iff)

lemma word_text_simps:
  assumes "word_text s"
  shows "s \<noteq> []" "CHR '' '' \<notin> set s" "line_text s" "list_all (\<lambda>c. (of_char c :: nat) < 128) s"
  using assms word_text_char [OF assms, of "CHR '' ''"] word_text_char [OF assms, of "CHR 0x0D"] word_text_char [OF assms, of "CHR 0x0A"]
  by (auto simp: word_text_def line_text_def list_all_iff)

lemma split_on_plain: "c \<notin> set s \<Longrightarrow> split_on c s = [s]"
  by (induction s) auto

lemma split_on_append: "c \<notin> set s \<Longrightarrow> split_on c (s @ c # t) = s # split_on c t"
  by (induction s) auto

lemma trim_end_keeps: "s \<noteq> [] \<Longrightarrow> last s \<notin> set cs \<Longrightarrow> trim_end_matches cs s = s"
  by (cases s rule: rev_cases) (auto simp: trim_end_matches_def)

lemma trim_end_drops: "set t \<subseteq> set cs \<Longrightarrow> trim_end_matches cs (s @ t) = trim_end_matches cs s"
  by (auto simp: trim_end_matches_def intro!: arg_cong [of _ _ rev] dropWhile_append2)

lemma ascii_CRLF: "list_all (\<lambda>c. (of_char c :: nat) < 128) CRLF"
  by (simp add: CRLF_def)

section \<open>Reading a request\<close>

lemma request_line_text:
  assumes "request_ok q"
  shows "line_text (request_line q)" "list_all (\<lambda>c. (of_char c :: nat) < 128) (request_line q)"
  using assms word_text_simps by (auto simp: request_ok_def request_line_def)

lemma field_lines_text:
  assumes "request_ok q" and "l \<in> set (field_lines q)"
  shows "line_text l" "l \<noteq> []" "list_all (\<lambda>c. (of_char c :: nat) < 128) l"
  using assms word_text_simps by (auto simp: request_ok_def field_lines_def split: if_splits)

lemma parse_request_line_ok:
  assumes "request_ok q"
  shows "parse_request_line (as_bytes (request_line q @ CRLF)) = Inr (cq_method q, cq_path q, ''HTTP/1.1'')"
proof -
  have "utf8_string (request_line q @ CRLF)"
    using request_line_text(2) [OF assms] ascii_CRLF by (intro ascii_utf8) simp
  moreover have "trim_end_matches [CHR 0x0D, CHR 0x0A] (request_line q @ CRLF) = request_line q"
    by (subst trim_end_drops) (auto simp: CRLF_def request_line_def intro!: trim_end_keeps)
  moreover have "split_on (CHR '' '') (request_line q) = [cq_method q, cq_path q, ''HTTP/1.1'']"
    using assms word_text_simps(2) by (simp add: request_ok_def request_line_def split_on_append)
  ultimately show ?thesis
    by (simp add: parse_request_line_def from_utf8_as_bytes)
qed

text \<open>White space is neither at the beginning nor at the end of a word.\<close>

lemma strip_white_word:
  assumes "list_all (\<lambda>w. w \<noteq> [] \<and> (unat (hd w) < 33 \<or> 127 \<le> unat (hd w))) ws" and "word_text s"
  shows "strip_white ws n s = s"
proof -
  have "\<not> prefix (of_bytes w) s" if "w \<in> set ws" for w
  proof
    assume "prefix (of_bytes w) s"
    moreover have "w \<noteq> []" "s \<noteq> []"
      using that assms by (auto simp: list_all_iff word_text_def)
    ultimately obtain c t b bs where "s = c # t" "w = b # bs" "c = char_of (unat b)"
      by (cases w; cases s) (auto simp: of_bytes_def)
    moreover from this that assms(1) have "unat b < 33 \<or> 127 \<le> unat b"
      by (auto simp: list_all_iff)
    moreover have "unat b < 256"
      using unsigned_less [of b, where 'a = nat] by simp
    ultimately show False
      using assms(2) by (auto simp: word_text_def)
  qed
  then have "List.find (\<lambda>w. prefix (of_bytes w) s) ws = None"
    by (simp add: find_None_iff)
  then show ?thesis
    by (cases n) simp_all
qed

lemma word_text_rev [simp]: "word_text (rev s) = word_text s"
  by (simp add: word_text_def)

lemma white_space_outside:
  "list_all (\<lambda>w. w \<noteq> [] \<and> (unat (hd w) < 33 \<or> 127 \<le> unat (hd w))) white_space"
  "list_all (\<lambda>w. w \<noteq> [] \<and> (unat (hd w) < 33 \<or> 127 \<le> unat (hd w))) (map rev white_space)"
  by (simp_all add: white_space_def)

lemma trim_word: "word_text s \<Longrightarrow> trim s = s"
  by (simp add: trim_def strip_white_word white_space_outside)

lemma trim_space_word:
  assumes "word_text s"
  shows "trim ('' '' @ s) = s"
proof -
  have "List.find (\<lambda>w. prefix (of_bytes w) (CHR '' '' # s)) white_space = Some [32]"
    by (simp add: white_space_def of_bytes_def char_of_eq_iff)
  with assms show ?thesis
    by (simp add: trim_def strip_white_word white_space_outside)
qed

lemma parse_host_line:
  assumes "word_text h"
  shows "parse_headers ((''Host: '' @ h @ [CHR 0x0D]) # ls) hi = parse_headers ls hi"
proof -
  have "last h \<noteq> CHR 0x0D"
    using last_in_set [OF word_text_simps(1) [OF assms]] word_text_char [OF assms, of "CHR 0x0D"] by auto
  then have "trim_end_matches [CHR 0x0D] ((''Host: '' @ h) @ [CHR 0x0D]) = ''Host: '' @ h"
    using word_text_simps(1) [OF assms] by (subst trim_end_drops) (auto intro!: trim_end_keeps)
  moreover have "trim ''Host'' = ''Host''"
    by (rule trim_word) (simp add: word_text_def)
  ultimately show ?thesis
    by (simp add: eq_ignore_ascii_case_def)
qed

lemma parse_close_line:
  "parse_headers ((''Connection: close'' @ [CHR 0x0D]) # ls) hi = parse_headers ls (hi\<lparr>hi_close := True\<rparr>)"
proof -
  have t: "word_text ''Connection''" "word_text ''close''" by (simp_all add: word_text_def)
  have "trim_end_matches [CHR 0x0D] (''Connection: close'' @ [CHR 0x0D]) = ''Connection: close''"
    by (simp add: trim_end_matches_def)
  moreover have "eq_ignore_ascii_case ''Connection'' ''connection''" "\<not> eq_ignore_ascii_case ''Connection'' ''content-length''"
    "eq_ignore_ascii_case ''close'' ''close''"
    by code_simp+
  ultimately show ?thesis
    using trim_word [OF t(1)] trim_word [OF t(2)] trim_space_word [OF t(2)] by simp
qed

lemma split_lines:
  "\<forall>l\<in>set ls. line_text l \<Longrightarrow>
   split_on (CHR 0x0A) (concat (map (\<lambda>l. l @ CRLF) ls) @ t) = map (\<lambda>l. l @ [CHR 0x0D]) ls @ split_on (CHR 0x0A) t"
proof (induction ls)
  case (Cons l ls)
  then have "CHR 0x0A \<notin> set (l @ [CHR 0x0D])" by (simp add: line_text_def)
  from split_on_append [OF this] Cons show ?case by (simp add: CRLF_def)
qed simp

lemma parse_fields:
  assumes "request_ok q"
  shows "parse_headers (split_on (CHR 0x0A) (fields_text q)) hi = Inr (if cq_close q then hi\<lparr>hi_close := True\<rparr> else hi)"
proof -
  have "split_on (CHR 0x0A) (fields_text q) = map (\<lambda>l. l @ [CHR 0x0D]) (field_lines q) @ [[CHR 0x0D], []]"
    using field_lines_text(1) [OF assms] by (simp add: fields_text_def split_lines) (simp add: CRLF_def)
  moreover have "parse_headers ([CHR 0x0D] # ls) hi = Inr hi" for ls hi
    by (simp add: trim_end_matches_def)
  ultimately show ?thesis
    using assms parse_host_line parse_close_line
    by (simp add: request_ok_def field_lines_def del: parse_headers.simps)
qed

section \<open>One request\<close>

lemma fields_text_lines:
  "as_bytes (fields_text q) = concat (map (\<lambda>l. l @ [CR, LF]) (map as_bytes (field_lines q))) @ [CR, LF]"
proof -
  have "as_bytes (concat (map (\<lambda>l. l @ CRLF) ls)) = concat (map (\<lambda>l. l @ [CR, LF]) (map as_bytes ls))" for ls
    by (induction ls) (simp_all add: as_bytes_append as_bytes_def [of "[]"])
  then show ?thesis
    unfolding fields_text_def as_bytes_append by simp
qed

lemma fields_terminator:
  assumes "request_ok q"
  shows "find_header_terminator (as_bytes (fields_text q) @ bs) = Some (length (fields_text q) - 1)"
proof -
  have "\<forall>l\<in>set (map as_bytes (field_lines q)). line_bytes l"
    using field_lines_text [OF assms] by (auto intro!: line_bytes_as_bytes)
  moreover have "length (fields_text q) = length (as_bytes (fields_text q))" by simp
  ultimately show ?thesis
    unfolding fields_text_lines append_assoc
    by (subst find_header_terminator_lines) (simp_all add: field_lines_def)
qed

lemma read_request_printed:
  assumes "request_ok q"
  shows "read_request \<lparr>b_chunks = (request_bytes q @ rest) # cs, b_end = e\<rparr> =
    (Inr (Some (understood q)), \<lparr>b_chunks = (if rest = [] then cs else rest # cs), b_end = e\<rparr>)"
proof -
  let ?line = "as_bytes (request_line q) @ [CR]" and ?fields = "as_bytes (fields_text q)"
  let ?n = "length (fields_text q)"
  have chunk: "request_bytes q @ rest = ?line @ LF # ?fields @ rest"
    by (simp add: request_bytes_def as_bytes_append)
  have "line_bytes (as_bytes (request_line q))"
    using request_line_text(1) [OF assms] by (intro line_bytes_as_bytes) (simp_all add: request_line_def)
  then have pos: "position (\<lambda>b. b = LF) (?line @ LF # ?fields @ rest) = Some (length ?line)"
    by (intro position_first) (auto simp: line_bytes_def)
  have n: "0 < ?n" by (simp add: fields_text_def CRLF_def)
  have lens: "length (request_line q) + 2 \<le> MAX_REQUEST_LINE" "?n \<le> MAX_HEADERS"
    using assms by (simp_all add: request_ok_def)
  have "read_until_limited LF MAX_REQUEST_LINE [] e ((?line @ LF # ?fields @ rest) # cs) =
      (Inr (Some (?line @ [LF])), (?fields @ rest) # cs)"
    using pos lens(1) n by (simp add: Let_def consume_first_def)
  moreover have "?line @ [LF] = as_bytes (request_line q @ CRLF)"
    by (simp add: as_bytes_append)
  moreover have "read_headers_limited MAX_HEADERS [] e ((?fields @ rest) # cs) =
      (Inr ?fields, if rest = [] then cs else rest # cs)"
    using lens(2) n by (simp add: fields_terminator [OF assms] Let_def consume_first_def)
  moreover have "from_utf8 ?fields = Some (fields_text q)"
    using field_lines_text(3) [OF assms] ascii_CRLF
    by (intro from_utf8_as_bytes ascii_utf8) (auto simp: fields_text_def list_all_iff)
  ultimately show ?thesis
    by (simp add: read_request_def chunk parse_request_line_ok [OF assms] parse_fields [OF assms] understood_def
        keep_alive_of_def MAX_BODY_BYTES_def del: read_until_limited.simps read_headers_limited.simps)
qed

section \<open>A session\<close>

definition response_bytes :: "response \<Rightarrow> bytes" where
  "response_bytes r = as_bytes (response_head r) @ hr_body r"

lemma write_response_unlimited:
  "w_budget w = None \<Longrightarrow> write_response r w = (Inr (), w\<lparr>w_out := w_out w @ response_bytes r\<rparr>)"
  by (simp add: write_response_def write_all_def response_bytes_def)

text \<open>The requests up to the first that asks to close.\<close>

fun until_close :: "client_request list \<Rightarrow> client_request list" where
  "until_close [] = []"
| "until_close (q # qs) = q # (if cq_close q then [] else until_close qs)"

text \<open>Requests as they arrive: every chunk holds one or more of them, whole.\<close>

definition chunks_of :: "client_request list list \<Rightarrow> bytes list" where
  "chunks_of groups = map (\<lambda>qs. concat (map request_bytes qs)) groups"

definition answers :: "static_fs \<Rightarrow> static_spec \<Rightarrow> client_request list \<Rightarrow> bytes" where
  "answers fs spec qs = concat (map (\<lambda>q. response_bytes (respond fs spec (understood q))) (until_close qs))"

lemma request_bytes_not_Nil [simp]: "request_bytes q \<noteq> []"
  by (simp add: request_bytes_def as_bytes_def request_line_def)

lemma serve_one_printed:
  assumes "request_ok q" and "w_budget w = None"
  shows "serve_one fs spec w \<lparr>b_chunks = (request_bytes q @ rest) # cs, b_end = e\<rparr> =
    (Inr (\<not> cq_close q), w\<lparr>w_out := w_out w @ response_bytes (respond fs spec (understood q))\<rparr>,
     \<lparr>b_chunks = (if rest = [] then cs else rest # cs), b_end = e\<rparr>)"
  using assms
  by (simp add: serve_one_def read_request_printed write_response_unlimited) (simp add: understood_def)

lemma serve_all_answers:
  assumes "concat groups = qs" and "[] \<notin> set groups" and "list_all request_ok qs" and "w_budget w = None"
  shows "serve_all fs spec w \<lparr>b_chunks = chunks_of groups, b_end = Eof\<rparr> =
    (Inr (), w\<lparr>w_out := w_out w @ answers fs spec qs\<rparr>)"
  using assms
proof (induction qs arbitrary: groups w)
  case Nil
  then have "groups = []" by (cases groups) auto
  then show ?case
    by (subst serve_all.simps) (simp add: serve_one_def read_request_def chunks_of_def answers_def)
next
  case (Cons q qs)
  then obtain g gs where groups: "groups = (q # g) # gs" and qs: "qs = g @ concat gs"
    by (cases groups; cases "hd groups") auto
  let ?w = "w\<lparr>w_out := w_out w @ response_bytes (respond fs spec (understood q))\<rparr>"
  define rest where "rest = (if g = [] then gs else g # gs)"
  have one: "serve_one fs spec w \<lparr>b_chunks = chunks_of groups, b_end = Eof\<rparr> =
      (Inr (\<not> cq_close q), ?w, \<lparr>b_chunks = chunks_of rest, b_end = Eof\<rparr>)"
    using serve_one_printed [of q w fs spec "concat (map request_bytes g)" "chunks_of gs" Eof] Cons.prems(3,4)
    by (simp add: groups chunks_of_def rest_def)
  have "serve_all fs spec ?w \<lparr>b_chunks = chunks_of rest, b_end = Eof\<rparr> =
      (Inr (), ?w\<lparr>w_out := w_out ?w @ answers fs spec qs\<rparr>)"
    using Cons.prems by (intro Cons.IH) (auto simp: groups qs rest_def)
  then show ?case
    using one by (subst serve_all.simps) (simp add: answers_def del: serve_all.simps)
qed

section \<open>Properties\<close>

text \<open>
  C16. A client of the static server gets its answers. It authenticates with the service's secret and
  sends any number of requests, several at a time if it likes. Then the session ends without an
  error, and after the frames of the handshake the client has received exactly the responses to its
  requests, in the order of the requests, up to and including the first that asked to close.
\<close>

theorem static_session_answers:
  assumes "length n = 32" and "\<forall>k m. length (hm k m) = 32"
    and "[] \<notin> set groups" and "list_all request_ok (concat groups)"
    and "buffered \<lparr>r_in = concat (chunks_of groups), r_end = Eof\<rparr> = \<lparr>b_chunks = chunks_of groups, b_end = Eof\<rparr>"
  shows "static_handle js hm fs spec n buffered
      \<lparr>r_in = wire js AuthHello @
         wire js (AuthProof \<lparr>mac = compute_proof hm (ss_shared_secret spec) (ss_name spec) n\<rparr>) @ concat (chunks_of groups),
       r_end = Eof\<rparr> idle_writer =
    (StaticServed (Inr ()),
     \<lparr>w_out = wire js (AuthNonce \<lparr>nonce = n\<rparr>) @ wire js AuthOk @ answers fs spec (concat groups), w_budget = None\<rparr>)"
proof -
  have "length (compute_proof hm (ss_shared_secret spec) (ss_name spec) n) = 32"
    using assms(2) by (simp add: compute_proof_def)
  note handshake = provider_completes [OF assms(1) this, of js "concat (chunks_of groups)" Eof]
  show ?thesis
    using serve_all_answers [OF refl assms(3,4)]
    by (simp add: static_handle_def idle_writer_def handshake assms(5) del: serve_all.simps)
qed

theorem static_session_answers_witness:
  "let get = (\<lambda>close. \<lparr>cq_method = ''GET'', cq_path = ''/a.txt'', cq_host = ''x'', cq_close = close\<rparr>);
       ok = (\<lambda>keep. response_bytes (respond demo_fs demo_static
         \<lparr>rq_method = ''GET'', rq_path = ''/a.txt'', rq_keep_alive = keep\<rparr>))
   in snd (static_handle marked_codec (\<lambda>k m. replicate 32 0) demo_fs demo_static (replicate 32 3)
       (\<lambda>r. \<lparr>b_chunks = [r_in r], b_end = r_end r\<rparr>)
       \<lparr>r_in = wire marked_codec AuthHello @ wire marked_codec (AuthProof \<lparr>mac = replicate 32 0\<rparr>) @
          request_bytes (get False) @ request_bytes (get True) @ request_bytes (get False), r_end = Eof\<rparr> idle_writer) =
     \<lparr>w_out = wire marked_codec (AuthNonce \<lparr>nonce = replicate 32 3\<rparr>) @ wire marked_codec AuthOk @ ok True @ ok False,
      w_budget = None\<rparr>"
proof -
  let ?get = "\<lambda>close. \<lparr>cq_method = ''GET'', cq_path = ''/a.txt'', cq_host = ''x'', cq_close = close\<rparr>"
  let ?groups = "[[?get False, ?get True, ?get False]]"
  have "request_ok (?get close)" for close
    by (simp add: request_ok_def word_text_def request_line_def fields_text_def field_lines_def CRLF_def
        MAX_REQUEST_LINE_def MAX_HEADERS_def)
  then have ok: "list_all request_ok (concat ?groups)" by simp
  have n: "length (replicate 32 (3 :: u8)) = 32" and h: "\<forall>k m :: bytes. length (replicate 32 (0 :: u8)) = 32"
    and g: "[] \<notin> set ?groups"
    and b: "(\<lambda>r. \<lparr>b_chunks = [r_in r], b_end = r_end r\<rparr>) \<lparr>r_in = concat (chunks_of ?groups), r_end = Eof\<rparr> =
      \<lparr>b_chunks = chunks_of ?groups, b_end = Eof\<rparr>"
    by (simp_all add: chunks_of_def)
  show ?thesis
    using static_session_answers [where hm = "\<lambda>k m. replicate 32 0" and groups = ?groups and
      buffered = "\<lambda>r. \<lparr>b_chunks = [r_in r], b_end = r_end r\<rparr>", OF n h g ok b,
      of marked_codec demo_fs demo_static]
    by (simp add: Let_def chunks_of_def answers_def understood_def compute_proof_def)
qed

end
