(* ===== verification/Static_Listing.thy ===== *)
theory Static_Listing
  imports Static_Http "HOL-Library.Multiset"
begin

text \<open>
  The order of a directory listing and what its links lead to
  (\<^verbatim>\<open>crates/client/src/static_http.rs\<close>, \<open>render_directory_listing\<close>). The standard library documents
  \<open>slice::sort_by\<close> as a stable sort for a total order; the locale \<open>stable_sort\<close> shows that
  \<open>Static_Http.sort_by\<close> is one, and that there is only one such result, so that the choice of
  the algorithm does not matter. Its interpretation \<open>rows\<close> is the comparison the listing uses.
\<close>

section \<open>Stable sorting\<close>

lemma mset_insert_by [simp]: "mset (insert_by le x ys) = add_mset x (mset ys)"
  by (induction ys) auto

lemma sort_by_simps [simp]: "sort_by le [] = []" "sort_by le (x # xs) = insert_by le x (sort_by le xs)"
  by (simp_all add: sort_by_def)

lemma mset_sort_by [simp]: "mset (sort_by le xs) = mset xs"
  by (induction xs) simp_all

lemma set_insert_by [simp]: "set (insert_by le x ys) = insert x (set ys)"
  by (induction ys) auto

text \<open>The elements that compare as equal to \<open>x\<close>, in the order of the list.\<close>

definition ties :: "('a \<Rightarrow> 'a \<Rightarrow> bool) \<Rightarrow> 'a \<Rightarrow> 'a list \<Rightarrow> 'a list" where
  "ties le x xs = filter (\<lambda>y. le x y \<and> le y x) xs"

locale stable_sort =
  fixes le :: "'a \<Rightarrow> 'a \<Rightarrow> bool"
  assumes total: "le x y \<or> le y x"
    and trans: "le x y \<Longrightarrow> le y z \<Longrightarrow> le x z"
begin

lemma refl: "le x x"
  using total by blast

lemma sorted_insert_by: "sorted_wrt le ys \<Longrightarrow> sorted_wrt le (insert_by le x ys)"
  by (induction ys) (use total trans in auto)

lemma sorted_sort_by: "sorted_wrt le (sort_by le xs)"
  by (induction xs) (simp_all add: sorted_insert_by)

lemma ties_insert_by: "ties le x (insert_by le z ys) = ties le x (z # ys)"
proof (induction ys)
  case (Cons y ys)
  have "\<not> (le x y \<and> le y x \<and> le x z \<and> le z x)" if "\<not> le z y"
    using that trans by blast
  with Cons show ?case
    by (auto simp: ties_def)
qed (simp add: ties_def)

lemma ties_sort_by: "ties le x (sort_by le xs) = ties le x xs"
  by (induction xs) (simp_all add: ties_insert_by, simp add: ties_def)

lemma mem_ties: "x \<in> set (ties le x xs) \<longleftrightarrow> x \<in> set xs"
  by (simp add: ties_def refl)

lemma stable_unique:
  assumes "sorted_wrt le as" and "sorted_wrt le bs" and "\<And>x. ties le x as = ties le x bs"
  shows "as = bs"
  using assms
proof (induction as arbitrary: bs)
  case Nil
  have "b \<notin> set bs" for b
    using mem_ties [of b bs] unfolding Nil.prems(3) [of b, symmetric] by (simp add: ties_def)
  then show ?case by (cases bs) auto
next
  case (Cons a as)
  have "a \<in> set bs"
    using mem_ties [of a bs] mem_ties [of a "a # as"] unfolding Cons.prems(3) [of a] by simp
  then obtain b bs' where bs: "bs = b # bs'" and "a = b \<or> le b a"
    using Cons.prems(2) by (cases bs) auto
  moreover have "a = b \<or> le a b"
  proof -
    have "b \<in> set (a # as)"
      using mem_ties [of b bs] mem_ties [of b "a # as"] unfolding Cons.prems(3) [of b] bs by simp
    then show ?thesis
      using Cons.prems(1) by auto
  qed
  ultimately have ab: "a = b"
    using Cons.prems(3) [of a] refl unfolding bs by (auto simp: ties_def)
  have "ties le x as = ties le x bs'" for x
    using Cons.prems(3) [of x] unfolding bs ab by (simp add: ties_def split: if_splits)
  then show ?case
    using Cons.IH [of bs'] Cons.prems(1,2) unfolding bs ab by simp
qed

lemma sort_by_unique:
  assumes "sorted_wrt le ys" and "\<And>x. ties le x ys = ties le x xs"
  shows "ys = sort_by le xs"
  by (rule stable_unique [OF assms(1) sorted_sort_by]) (simp add: assms(2) ties_sort_by)

end

section \<open>The order of the rows\<close>

lemma string_le_total: "string_le s t \<or> string_le t s"
proof (induction s t rule: string_le.induct)
  case (3 c s d t)
  then show ?case by (auto simp: of_char_eq_iff not_less_iff_gr_or_eq)
qed simp_all

lemma string_le_trans: "string_le r s \<Longrightarrow> string_le s t \<Longrightarrow> string_le r t"
proof (induction s arbitrary: r t)
  case Nil
  then show ?case by (cases r) simp_all
next
  case (Cons d s)
  then show ?case by (cases r; cases t) auto
qed

interpretation rows: stable_sort "listed_le lower" for lower
  by unfold_locales (use string_le_total string_le_trans in \<open>auto simp: listed_le_def\<close>)

section \<open>Links\<close>

lemma drop_dotdot_id: "\<not> sublist ''..'' s \<Longrightarrow> drop_dotdot s = s"
proof (induction s rule: drop_dotdot.induct)
  case (1 a b cs)
  then show ?case by (auto simp: sublist_Cons_right)
qed simp_all

lemma split_on_hd: "c \<notin> set s \<Longrightarrow> split_on c s = [s]"
  by (induction s) auto

lemma percent_bytes_id: "0x25 \<notin> set bs \<Longrightarrow> 0x2B \<notin> set bs \<Longrightarrow> percent_bytes bs = Some bs"
  by (induction bs) auto

lemma as_bytes_mem: "of_nat (of_char c) \<in> set (as_bytes s) \<longleftrightarrow> c \<in> set s"
proof
  assume "of_nat (of_char c) \<in> set (as_bytes s)"
  then have "c \<in> set (of_bytes (as_bytes s))"
    unfolding of_bytes_def by (force simp: unat_of_char_u8)
  then show "c \<in> set s" by simp
qed (simp add: as_bytes_def)

text \<open>The escapes of RFC 3986, for every byte: what \<open>percent_decode\<close> has to invert.\<close>

definition hex_digit :: "nat \<Rightarrow> u8" where
  "hex_digit n = of_nat (if n < 10 then 48 + n else 55 + n)"

definition percent_encode :: "string \<Rightarrow> string" where
  "percent_encode s =
     of_bytes (concat (map (\<lambda>b. [0x25, hex_digit (unat b div 16), hex_digit (unat b mod 16)]) (as_bytes s)))"

lemma hex_value_digit: "n < 16 \<Longrightarrow> hex_value (hex_digit n) = Some n"
  by (auto simp: hex_value_def hex_digit_def unat_of_nat Let_def)

lemma percent_bytes_escapes:
  "percent_bytes (concat (map (\<lambda>b. [0x25, hex_digit (unat b div 16), hex_digit (unat b mod 16)]) bs)) = Some bs"
proof (induction bs)
  case (Cons b bs)
  have "unat b div 16 < 16" and "unat b div 16 * 16 + unat b mod 16 = unat b"
    using unsigned_less [of b, where 'a = nat] by simp_all
  with Cons show ?case
    by (simp add: hex_value_digit)
qed simp

text \<open>A path whose text means the same in a URL: none of the characters that the server decodes or cuts off.\<close>

definition plain_path :: "string \<Rightarrow> bool" where
  "plain_path s \<longleftrightarrow> utf8_string s \<and> \<not> sublist ''..'' s \<and> set s \<inter> {CHR ''%'', CHR ''+'', CHR ''?'', CHR ''#''} = {}"

lemma percent_decode_plain: "plain_path s \<Longrightarrow> percent_decode (raw_path s) = Some s"
  using as_bytes_mem [of "CHR ''%''" s] as_bytes_mem [of "CHR ''+''" s]
  by (simp add: plain_path_def percent_decode_def raw_path_def split_on_hd percent_bytes_id from_utf8_as_bytes)

lemma slash_append [simp]: "(@) ''/'' = (#) CHR ''/''"
  by (rule ext) simp

lemma join_parts_concat: "ps \<noteq> [] \<Longrightarrow> concat (map ((#) CHR ''/'') ps) = CHR ''/'' # join_parts ps"
  by (cases ps) (simp_all add: join_parts_def)

lemma joined_path_listed:
  assumes "ps \<noteq> []" and "hd ps \<noteq> []" and "hd (hd ps) \<noteq> CHR ''/''" and "\<forall>p\<in>set root. p \<noteq> [] \<and> CHR ''/'' \<notin> set p"
  shows "joined_path root (''/'' @ join_parts ps) = path_text (root @ ps)"
proof -
  obtain c cs where j: "join_parts ps = c # cs" "c \<noteq> CHR ''/''"
    using assms(1-3) by (cases ps; cases "hd ps") (auto simp: join_parts_def)
  have "last (concat (map (\<lambda>p. ''/'' @ p) root)) \<noteq> CHR ''/''" if "root \<noteq> []"
    using that assms(4) by (induction root rule: rev_induct) (auto dest: last_in_set)
  then show ?thesis
    using assms(1) j by (auto simp: joined_path_def join_path_def path_text_def join_parts_concat)
qed

section \<open>The parts of a page\<close>

definition table_head :: "bool \<Rightarrow> string" where
  "table_head is_root =
     ''<table><thead><tr><th>Name</th><th class='' @ quoted ''size'' @ ''>Size</th></tr></thead><tbody>''
     @ (if is_root then []
        else ''<tr><td><a href='' @ quoted ''../'' @ ''>../</a></td><td class='' @ quoted ''size'' @ ''>''
          @ em_dash @ ''</td></tr>'')"

lemma page_parts: "render_listing title is_root es =
    (listing_head title @ ''<h1>Index of '' @ title @ ''</h1>'' @ table_head is_root)
    @ concat (map listing_row es) @ ''</tbody></table></body></html>''"
  by (simp add: render_listing_def listing_table_def table_head_def)

lemma listing_row_fun: "listing_row = (\<lambda>e. ''<tr><td><a href='' @ [CHR 0x22] @ html_escape (drop_dotdot (li_href e)) @ [CHR 0x22] @ ''>''
    @ html_escape (if li_is_dir e then li_name e @ ''/'' else li_name e)
    @ ''</a></td><td class='' @ [CHR 0x22] @ ''size'' @ [CHR 0x22] @ ''>''
    @ (if li_is_dir e then em_dash else size_text (li_size e)) @ ''</td></tr>'')"
  by (rule ext) (simp add: listing_row_def quoted_def)

lemma list_entry_shown:
  "(li_name (list_entry root dir e), li_is_dir (list_entry root dir e), li_size (list_entry root dir e)) =
    (de_name e, case de_meta e of Some (d, n) \<Rightarrow> (d, n) | None \<Rightarrow> (False, 0))"
  by (simp add: list_entry_def Let_def split: option.split)

section \<open>Properties\<close>

text \<open>
  C39. A directory listing shows every entry of the directory once and in order. Between a beginning
  and an end that do not depend on the entries, the page has one row for each entry that \<open>read_dir\<close>
  gave, and nothing else. A row shows the escaped name, with a slash after a directory, as a link,
  and the size of a file. Directories come before files, within each kind the rows are in the order
  of the lower-case names, and entries that compare as equal keep the order in which the file
  system gave them. No other order of rows has these properties, so it does not depend on the
  sorting algorithm.
\<close>

theorem listing_in_order:
  "\<exists>before after. \<forall>entries. \<exists>es.
    of_bytes (render_directory_listing lower root dir entries) = before @ concat (map (\<lambda>e.
      ''<tr><td><a href='' @ [CHR 0x22] @ html_escape (drop_dotdot (li_href e)) @ [CHR 0x22] @ ''>''
      @ html_escape (if li_is_dir e then li_name e @ ''/'' else li_name e)
      @ ''</a></td><td class='' @ [CHR 0x22] @ ''size'' @ [CHR 0x22] @ ''>''
      @ (if li_is_dir e then em_dash else size_text (li_size e)) @ ''</td></tr>'') es) @ after \<and>
    mset es = mset (map (list_entry root dir) entries) \<and>
    mset (map (\<lambda>e. (li_name e, li_is_dir e, li_size e)) es) =
      mset (map (\<lambda>e. (de_name e, case de_meta e of Some (d, n) \<Rightarrow> (d, n) | None \<Rightarrow> (False, 0))) entries) \<and>
    (\<forall>i j. i < j \<and> j < length es \<longrightarrow>
      (li_is_dir (es ! j) \<longrightarrow> li_is_dir (es ! i)) \<and>
      (li_is_dir (es ! i) = li_is_dir (es ! j) \<longrightarrow> string_le (lower (li_name (es ! i))) (lower (li_name (es ! j))))) \<and>
    (\<forall>ys. ys = es \<longleftrightarrow> sorted_wrt (listed_le lower) ys \<and>
      (\<forall>x. ties (listed_le lower) x ys = ties (listed_le lower) x (map (list_entry root dir) entries)))"
proof (intro exI conjI allI)
  fix entries
  let ?rows = "map (list_entry root dir) entries" and ?es = "sort_by (listed_le lower) (map (list_entry root dir) entries)"
  show "of_bytes (render_directory_listing lower root dir entries) =
      (listing_head (listing_title root dir) @ ''<h1>Index of '' @ listing_title root dir @ ''</h1>'' @ table_head (relative_to root dir = []))
      @ concat (map (\<lambda>e.
      ''<tr><td><a href='' @ [CHR 0x22] @ html_escape (drop_dotdot (li_href e)) @ [CHR 0x22] @ ''>''
      @ html_escape (if li_is_dir e then li_name e @ ''/'' else li_name e)
      @ ''</a></td><td class='' @ [CHR 0x22] @ ''size'' @ [CHR 0x22] @ ''>''
      @ (if li_is_dir e then em_dash else size_text (li_size e)) @ ''</td></tr>'') ?es) @ ''</tbody></table></body></html>''"
    by (simp add: render_directory_listing_def page_parts listing_row_fun)
  show "mset ?es = mset ?rows"
    by (rule mset_sort_by)
  then have "mset (map f ?es) = mset (map f ?rows)" for f :: "listed \<Rightarrow> string \<times> bool \<times> nat"
    by (simp only: mset_map)
  then show "mset (map (\<lambda>e. (li_name e, li_is_dir e, li_size e)) ?es) =
      mset (map (\<lambda>e. (de_name e, case de_meta e of Some (d, n) \<Rightarrow> (d, n) | None \<Rightarrow> (False, 0))) entries)"
    by (simp add: comp_def list_entry_shown)
  show "i < j \<and> j < length ?es \<longrightarrow>
      (li_is_dir (?es ! j) \<longrightarrow> li_is_dir (?es ! i)) \<and>
      (li_is_dir (?es ! i) = li_is_dir (?es ! j) \<longrightarrow>
        string_le (lower (li_name (?es ! i))) (lower (li_name (?es ! j))))" for i j
    using rows.sorted_sort_by [of lower ?rows] unfolding sorted_wrt_iff_nth_less listed_le_def by blast
  show "ys = ?es \<longleftrightarrow> sorted_wrt (listed_le lower) ys \<and>
      (\<forall>x. ties (listed_le lower) x ys = ties (listed_le lower) x ?rows)" for ys
    using rows.sorted_sort_by rows.ties_sort_by rows.sort_by_unique by metis
qed

theorem listing_in_order_witness:
  "\<exists>before after e1 e2. of_bytes (render_directory_listing (\<lambda>s. s) [''srv''] [''srv'']
      [\<lparr>de_name = ''b.txt'', de_meta = Some (False, 5)\<rparr>, \<lparr>de_name = ''docs'', de_meta = Some (True, 0)\<rparr>]) =
      before @ ''<tr><td><a href='' @ [CHR 0x22] @ html_escape (drop_dotdot e1) @ [CHR 0x22] @ ''>docs/</a></td><td class=''
      @ [CHR 0x22] @ ''size'' @ [CHR 0x22] @ ''>'' @ em_dash @ ''</td></tr><tr><td><a href='' @ [CHR 0x22] @ html_escape (drop_dotdot e2)
      @ [CHR 0x22] @ ''>b.txt</a></td><td class='' @ [CHR 0x22] @ ''size'' @ [CHR 0x22] @ ''>5 B</td></tr>'' @ after"
  using listing_in_order [of "\<lambda>s. s" "[''srv'']" "[''srv'']"]
proof (elim exE, goal_cases)
  case (1 before after)
  let ?entries = "[\<lparr>de_name = ''b.txt'', de_meta = Some (False, 5)\<rparr>, \<lparr>de_name = ''docs'', de_meta = Some (True, 0)\<rparr>]"
  from spec [OF 1, of ?entries] show ?case
  proof (elim exE conjE, goal_cases)
    case (1 es)
    have "length es = 2"
      using mset_eq_length [OF 1(2)] by simp
    then obtain a b where ab: "es = [a, b]"
      by (auto simp: length_Suc_conv numeral_2_eq_2)
    have "li_is_dir b \<Longrightarrow> li_is_dir a"
      using 1(4) [rule_format, of 0 1] ab by simp
    moreover have "(li_name a, li_is_dir a, li_size a) = (''b.txt'', False, 5) \<and> (li_name b, li_is_dir b, li_size b) = (''docs'', True, 0) \<or>
        (li_name a, li_is_dir a, li_size a) = (''docs'', True, 0) \<and> (li_name b, li_is_dir b, li_size b) = (''b.txt'', False, 5)"
      using 1(3) unfolding ab by (auto simp: add_eq_conv_ex)
    ultimately have ab': "li_name a = ''docs''" "li_is_dir a" "li_name b = ''b.txt''" "\<not> li_is_dir b" "li_size b = 5"
      by auto
    have texts: "html_escape ''docs/'' = ''docs/''" "html_escape ''b.txt'' = ''b.txt''" "size_text 5 = ''5 B''"
      by code_simp+
    show ?case
      by (rule exI [of _ before], rule exI [of _ after], rule exI [of _ "li_href a"], rule exI [of _ "li_href b"])
        (simp add: 1(1) ab ab' texts)
  qed
qed

text \<open>
  Decoding undoes encoding: every name of a file can be asked for, whatever characters it has, if
  the client escapes it.
\<close>

theorem percent_decode_encode:
  "utf8_string s \<Longrightarrow> percent_decode (percent_encode s) = Some s"
  by (simp add: percent_decode_def percent_encode_def percent_bytes_escapes from_utf8_as_bytes)

text \<open>
  The link of a file in a listing, read as a path below the root, is answered with that file, if the
  path has no dots to drop and none of the characters that the server decodes or cuts off. (The
  page gives it as a reference relative to the page's own address, which is the root only for the
  listing of the root itself.)
\<close>

theorem listing_links_served:
  assumes "fs_canonicalize fs (ss_root_dir spec) = Some root" and "\<forall>p\<in>set root. p \<noteq> [] \<and> CHR ''/'' \<notin> set p"
    and "\<forall>p\<in>set (d @ [de_name e]). p \<noteq> [] \<and> CHR ''/'' \<notin> set p" and "plain_path (''/'' @ join_parts (d @ [de_name e]))"
    and "de_meta e = Some (False, n)" and "fs_canonicalize fs (path_text (root @ d @ [de_name e])) = Some (root @ d @ [de_name e])"
    and "fs_is_dir fs (root @ d @ [de_name e]) = Some False" and "fs_read fs (root @ d @ [de_name e]) = Some body"
    and "req = \<lparr>rq_method = ''GET'', rq_path = ''/'' @ drop_dotdot (li_href (list_entry root (root @ d) e)), rq_keep_alive = ka\<rparr>"
  shows "build_response fs spec req = Inr (ok_response req (guess_content_type (root @ d @ [de_name e])) body)"
proof -
  let ?ps = "d @ [de_name e]"
  have href: "li_href (list_entry root (root @ d) e) = join_parts ?ps"
    by (simp add: list_entry_def assms(5) relative_to_def)
  have "\<not> sublist ''..'' (join_parts ?ps)"
    using assms(4) by (auto simp: plain_path_def sublist_Cons_right)
  then have path: "rq_path req = ''/'' @ join_parts ?ps"
    by (simp add: assms(9) href drop_dotdot_id)
  have "hd ?ps \<noteq> []" and "hd (hd ?ps) \<noteq> CHR ''/''"
    using assms(3) by (cases d; fastforce dest: hd_in_set)+
  then have "joined_path root (''/'' @ join_parts ?ps) = path_text (root @ ?ps)"
    using assms(2) by (intro joined_path_listed) auto
  moreover have "rq_method req = ''GET''"
    by (simp add: assms(9))
  ultimately show ?thesis
    using assms(1,6-8) percent_decode_plain [OF assms(4)] path
    by (simp add: build_response_def)
qed

theorem listing_links_served_witness:
  "build_response demo_fs demo_static \<lparr>rq_method = ''GET'', rq_path = ''/a.txt'', rq_keep_alive = True\<rparr> =
    Inr (ok_response \<lparr>rq_method = ''GET'', rq_path = ''/a.txt'', rq_keep_alive = True\<rparr>
      (guess_content_type [''srv'', ''a.txt'']) [104, 105])"
proof -
  let ?e = "\<lparr>de_name = ''a.txt'', de_meta = Some (False, 2)\<rparr>"
  have "plain_path (''/'' @ join_parts ([] @ [de_name ?e]))"
    by (simp add: plain_path_def join_parts_def ascii_utf8 sublist_Cons_right)
  from listing_links_served [OF _ _ _ this, of demo_fs demo_static "[''srv'']" 2 "[104, 105]" _ True] show ?thesis
    by (simp add: demo_fs_def demo_static_def list_entry_def relative_to_def join_parts_def path_text_def Let_def)
qed

end
