(* ===== verification/Relay_Pump.thy ===== *)
theory Relay_Pump
  imports Relay
begin

text \<open>
  The tunnel of a relayed stream while it is open: \<open>copy_bidirectional\<close> of
  \<^verbatim>\<open>crates/server/src/relay.rs\<close> as a transition system. \<open>Relay.copy_bidirectional\<close> combines the results
  of the two copies; here the two copies and the two peers interleave, so that it can be said when
  a peer sees the end of the other's stream.

  A lane is one direction: what its sender has sent and whether it has finished, what the relay has
  written to the receiver, how far the copy is, whether the relay has shut the receiver's stream
  down (\<open>lane_fin\<close>), and whether it has dropped that stream without a shutdown (\<open>lane_dropped\<close>: the
  stream then ends where it is, as iroh finishes or resets a stream that is dropped). \<open>tokio::io::copy\<close> and \<open>copy_throttled\<close> both read until the end of the stream and write what
  they read; neither shuts its writer down. A copy that fails may have read bytes that it did not
  write, or not all of them.
\<close>

section \<open>Lanes\<close>

datatype copying = Copying u64 | Ended "io_error + u64"

record lane =
  lane_sent :: bytes
  lane_eof :: bool
  lane_in :: bytes
  lane_out :: bytes
  lane_copy :: copying
  lane_fin :: bool
  lane_dropped :: bool

text \<open>\<open>lane_sent\<close> is the whole of what the sender has sent, \<open>lane_in\<close> what of it has not been read.\<close>

definition fresh_lane :: lane where
  "fresh_lane = \<lparr>lane_sent = [], lane_eof = False, lane_in = [], lane_out = [], lane_copy = Copying 0,
     lane_fin = False, lane_dropped = False\<rparr>"

inductive lane_step :: "lane \<Rightarrow> lane \<Rightarrow> bool" where
  sends: "\<not> lane_eof l \<Longrightarrow> lane_step l (l\<lparr>lane_sent := lane_sent l @ bs, lane_in := lane_in l @ bs\<rparr>)"
| finishes: "lane_step l (l\<lparr>lane_eof := True\<rparr>)"
| copies: "lane_copy l = Copying n \<Longrightarrow> lane_in l = bs @ rest \<Longrightarrow> bs \<noteq> [] \<Longrightarrow>
     lane_step l (l\<lparr>lane_in := rest, lane_out := lane_out l @ bs, lane_copy := Copying (n + of_nat (length bs))\<rparr>)"
| ends: "lane_copy l = Copying n \<Longrightarrow> lane_in l = [] \<Longrightarrow> lane_eof l \<Longrightarrow> lane_step l (l\<lparr>lane_copy := Ended (Inr n)\<rparr>)"
| fails: "lane_copy l = Copying n \<Longrightarrow> lane_in l = bs @ rest \<Longrightarrow>
     lane_step l (l\<lparr>lane_in := rest, lane_out := lane_out l @ take k bs, lane_copy := Ended (Inl e)\<rparr>)"


section \<open>The tunnel\<close>

record pump =
  request :: lane
  reply :: lane
  pump_result :: "(io_error + u64 \<times> u64) option"

definition fresh_pump :: pump where
  "fresh_pump = \<lparr>request = fresh_lane, reply = fresh_lane, pump_result = None\<rparr>"

text \<open>
  When both copies have ended (\<open>tokio::join!\<close>), the results are combined. Both streams are shut down
  unless one of the copies failed; the \<open>?\<close> on its error leaves the function and drops both streams.
\<close>

definition shut :: "io_error + u64 \<times> u64 \<Rightarrow> lane \<Rightarrow> lane" where
  "shut res l = (case res of Inl e \<Rightarrow> l\<lparr>lane_dropped := True\<rparr> | Inr _ \<Rightarrow> l\<lparr>lane_fin := True\<rparr>)"

inductive pump_step :: "nat option \<Rightarrow> pump \<Rightarrow> pump \<Rightarrow> bool" for bps where
  on_request: "lane_step (request p) l \<Longrightarrow> pump_step bps p (p\<lparr>request := l\<rparr>)"
| on_reply: "lane_step (reply p) l \<Longrightarrow> pump_step bps p (p\<lparr>reply := l\<rparr>)"
| join: "pump_result p = None \<Longrightarrow> lane_copy (request p) = Ended r1 \<Longrightarrow> lane_copy (reply p) = Ended r2 \<Longrightarrow>
     res = copy_bidirectional (\<lambda>_. r1) (\<lambda>_. r2) (\<lambda>_. r2) bps \<Longrightarrow>
     pump_step bps p \<lparr>request = shut res (request p), reply = shut res (reply p), pump_result = Some res\<rparr>"


section \<open>Invariants\<close>

definition lane_ok :: "lane \<Rightarrow> bool" where
  "lane_ok l \<longleftrightarrow>
     (case lane_copy l of
        Copying n \<Rightarrow> lane_sent l = lane_out l @ lane_in l \<and> n = of_nat (length (lane_out l))
      | Ended (Inr n) \<Rightarrow> lane_sent l = lane_out l \<and> lane_in l = [] \<and> n = of_nat (length (lane_out l)) \<and> lane_eof l
      | Ended (Inl e) \<Rightarrow> prefix (lane_out l) (lane_sent l))"

text \<open>A stream is shut down only together with the other one, after two copies that succeeded.\<close>

definition pump_ok :: "pump \<Rightarrow> bool" where
  "pump_ok p \<longleftrightarrow> lane_ok (request p) \<and> lane_ok (reply p) \<and>
     (case pump_result p of
        Some (Inr (x, y)) \<Rightarrow> lane_copy (request p) = Ended (Inr x) \<and> lane_copy (reply p) = Ended (Inr y) \<and>
          lane_fin (request p) \<and> lane_fin (reply p) \<and> \<not> lane_dropped (request p) \<and> \<not> lane_dropped (reply p)
      | Some (Inl e) \<Rightarrow> (lane_copy (request p) = Ended (Inl e) \<or> lane_copy (reply p) = Ended (Inl e)) \<and>
          (\<exists>r1 r2. lane_copy (request p) = Ended r1 \<and> lane_copy (reply p) = Ended r2) \<and>
          \<not> lane_fin (request p) \<and> \<not> lane_fin (reply p)
      | None \<Rightarrow> \<not> lane_fin (request p) \<and> \<not> lane_fin (reply p) \<and> \<not> lane_dropped (request p) \<and> \<not> lane_dropped (reply p))"

lemma lane_step_ok: "lane_step l l' \<Longrightarrow> lane_ok l \<Longrightarrow> lane_ok l'"
proof (induction rule: lane_step.induct)
  case (fails l n bs rest e k)
  have "prefix (take k bs) (bs @ rest)"
    using take_is_prefix by (rule prefix_prefix)
  with fails show ?case by (simp add: lane_ok_def)
qed (auto simp: lane_ok_def split: copying.splits sum.splits)

lemma lane_step_keeps: "lane_step l l' \<Longrightarrow> lane_fin l' = lane_fin l \<and> lane_dropped l' = lane_dropped l"
  by (induction rule: lane_step.induct) simp_all

lemma lane_step_ended: "lane_step l l' \<Longrightarrow> lane_copy l = Ended r \<Longrightarrow> lane_copy l' = Ended r"
  by (induction rule: lane_step.induct) simp_all

lemma lane_ok_shut [simp]: "lane_ok (shut res l) = lane_ok l"
  by (cases "lane_copy l") (simp_all add: shut_def lane_ok_def split: sum.splits)

lemma shut_simps [simp]:
  "lane_copy (shut res l) = lane_copy l" "lane_eof (shut res l) = lane_eof l"
  "lane_fin (shut (Inr x) l)" "lane_fin (shut (Inl e) l) = lane_fin l"
  "lane_dropped (shut (Inl e) l)" "lane_dropped (shut (Inr x) l) = lane_dropped l"
  by (simp_all add: shut_def split: sum.splits)

lemma pump_ok_move:
  assumes "pump_ok p"
  shows "lane_step (request p) l \<Longrightarrow> pump_ok (p\<lparr>request := l\<rparr>)" and "lane_step (reply p) l \<Longrightarrow> pump_ok (p\<lparr>reply := l\<rparr>)"
proof -
  have keeps: "lane_fin l' = lane_fin l \<and> lane_dropped l' = lane_dropped l \<and> (lane_ok l \<longrightarrow> lane_ok l') \<and>
      (\<forall>r. lane_copy l = Ended r \<longrightarrow> lane_copy l' = Ended r)" if "lane_step l l'" for l l'
    using that lane_step_ok lane_step_keeps lane_step_ended by blast
  show "lane_step (request p) l \<Longrightarrow> pump_ok (p\<lparr>request := l\<rparr>)"
    using assms keeps [of "request p" l] by (auto simp: pump_ok_def split: option.splits sum.splits)
  show "lane_step (reply p) l \<Longrightarrow> pump_ok (p\<lparr>reply := l\<rparr>)"
    using assms keeps [of "reply p" l] by (auto simp: pump_ok_def split: option.splits sum.splits)
qed

lemma pump_step_ok: "pump_step bps p p' \<Longrightarrow> pump_ok p \<Longrightarrow> pump_ok p'"
proof (induction rule: pump_step.induct)
  case (join p r1 r2 res)
  then show ?case
    by (cases r1; cases r2) (auto simp: pump_ok_def copy_bidirectional_def Let_def split: option.splits)
qed (blast intro: pump_ok_move)+

lemma fresh_pump_ok: "pump_ok fresh_pump"
  by (simp add: pump_ok_def fresh_pump_def fresh_lane_def lane_ok_def)

lemma pump_steps_ok: "(pump_step bps)\<^sup>*\<^sup>* p p' \<Longrightarrow> pump_ok p \<Longrightarrow> pump_ok p'"
  by (induction rule: rtranclp_induct) (auto intro: pump_step_ok)

text \<open>In a state that is \<open>pump_ok\<close>, a stream that has been shut down has been delivered whole.\<close>

lemma pump_ok_fin:
  assumes "pump_ok p" and "lane_fin (request p) \<or> lane_fin (reply p)"
  shows "lane_out (request p) = lane_sent (request p) \<and> lane_out (reply p) = lane_sent (reply p) \<and>
    lane_eof (request p) \<and> lane_eof (reply p) \<and>
    pump_result p = Some (Inr (of_nat (length (lane_sent (request p))), of_nat (length (lane_sent (reply p)))))"
  using assms by (auto simp: pump_ok_def lane_ok_def split: option.splits sum.splits)

text \<open>What a peer has received is always a beginning of what the other one has sent.\<close>

lemma lane_ok_prefix: "lane_ok l \<Longrightarrow> prefix (lane_out l) (lane_sent l)"
  by (auto simp: lane_ok_def split: copying.splits sum.splits)

lemma pump_ok_dropped:
  assumes "pump_ok p" and "lane_dropped (request p) \<or> lane_dropped (reply p)"
  shows "\<exists>e. pump_result p = Some (Inl e) \<and> (lane_copy (request p) = Ended (Inl e) \<or> lane_copy (reply p) = Ended (Inl e))"
  using assms by (auto simp: pump_ok_def split: option.splits sum.splits)






section \<open>Completion\<close>

text \<open>A lane whose sender has finished can be copied to its end, and both lanes make the tunnel end.\<close>

definition copied :: "lane \<Rightarrow> lane" where
  "copied l = l\<lparr>lane_in := [], lane_out := lane_sent l, lane_copy := Ended (Inr (of_nat (length (lane_sent l))))\<rparr>"

lemma copied_simps [simp]:
  "lane_sent (copied l) = lane_sent l" "lane_out (copied l) = lane_sent l" "lane_fin (copied l) = lane_fin l"
  "lane_copy (copied l) = Ended (Inr (of_nat (length (lane_sent l))))"
  by (simp_all add: copied_def)

definition failed :: "lane \<Rightarrow> bool" where
  "failed l \<longleftrightarrow> (\<exists>e. lane_copy l = Ended (Inl e))"

lemma lane_completes:
  assumes "lane_ok l" and "\<not> failed l" and "lane_eof l"
  shows "lane_step\<^sup>*\<^sup>* l (copied l)"
proof (cases "lane_copy l")
  case (Copying n)
  let ?l = "l\<lparr>lane_in := [], lane_out := lane_sent l, lane_copy := Copying (of_nat (length (lane_sent l)))\<rparr>"
  have "lane_step\<^sup>*\<^sup>* l ?l"
  proof (cases "lane_in l = []")
    case True
    with assms Copying have "?l = l" by (simp add: lane_ok_def)
    then show ?thesis by simp
  next
    case False
    with assms Copying copies [OF Copying, of "lane_in l" "[]"] show ?thesis by (simp add: lane_ok_def)
  qed
  moreover have "lane_step ?l (copied l)"
    using ends [of ?l] assms(3) by (simp add: copied_def)
  ultimately show ?thesis by (rule rtranclp.rtrancl_into_rtrancl)
next
  case (Ended r)
  with assms(1,2) have "copied l = l"
    by (cases r) (auto simp: failed_def lane_ok_def copied_def)
  then show ?thesis by simp
qed

lemma lane_steps_lift:
  "lane_step\<^sup>*\<^sup>* l l' \<Longrightarrow> l = request p \<Longrightarrow> (pump_step bps)\<^sup>*\<^sup>* p (p\<lparr>request := l'\<rparr>)"
  "lane_step\<^sup>*\<^sup>* l l' \<Longrightarrow> l = reply p \<Longrightarrow> (pump_step bps)\<^sup>*\<^sup>* p (p\<lparr>reply := l'\<rparr>)"
  by (induction rule: rtranclp_induct)
    (auto intro: rtranclp.rtrancl_into_rtrancl dest: on_request [of "p\<lparr>request := l\<rparr>" for p l, simplified]
      on_reply [of "p\<lparr>reply := l\<rparr>" for p l, simplified])

lemma copy_bidirectional_success: "copy_bidirectional (\<lambda>_. Inr x) (\<lambda>_. Inr y) (\<lambda>_. Inr y) bps = Inr (x, y)"
  by (simp add: copy_bidirectional_def Let_def split: option.splits)

lemma pump_completes:
  assumes "pump_ok p" and "pump_result p = None"
    and "\<not> failed (request p)" and "lane_eof (request p)" and "\<not> failed (reply p)" and "lane_eof (reply p)"
  shows "\<exists>p'. (pump_step bps)\<^sup>*\<^sup>* p p' \<and> lane_fin (request p') \<and> lane_fin (reply p') \<and>
    lane_sent (request p') = lane_sent (request p) \<and> lane_sent (reply p') = lane_sent (reply p)"
proof -
  let ?p1 = "p\<lparr>request := copied (request p)\<rparr>"
  let ?p2 = "?p1\<lparr>reply := copied (reply p)\<rparr>"
  have ok: "lane_ok (request p)" "lane_ok (reply p)" using assms(1) by (simp_all add: pump_ok_def)
  have "(pump_step bps)\<^sup>*\<^sup>* p ?p1"
    using lane_completes [OF ok(1) assms(3,4)] by (rule lane_steps_lift) simp
  moreover have "(pump_step bps)\<^sup>*\<^sup>* ?p1 ?p2"
    using lane_completes [OF ok(2) assms(5,6)] by (rule lane_steps_lift) simp
  ultimately have run: "(pump_step bps)\<^sup>*\<^sup>* p ?p2" by (rule rtranclp_trans)
  from assms(2) have "pump_result ?p2 = None" by simp
  from join [OF this, of _ _ _ bps] obtain p' where "pump_step bps ?p2 p'"
    "request p' = shut (Inr (of_nat (length (lane_sent (request p))), of_nat (length (lane_sent (reply p))))) (request ?p2)"
    "reply p' = shut (Inr (of_nat (length (lane_sent (request p))), of_nat (length (lane_sent (reply p))))) (reply ?p2)"
    by (fastforce simp: copy_bidirectional_success)
  with run show ?thesis
    by (intro exI [of _ p']) (auto simp: shut_def intro: rtranclp.rtrancl_into_rtrancl)
qed

section \<open>An example\<close>

text \<open>Both peers have sent something and the first one, or both, have finished.\<close>

definition demo_pump :: "bool \<Rightarrow> pump" where
  "demo_pump both =
     (let mk = (\<lambda>bs fin. fresh_lane\<lparr>lane_sent := bs, lane_in := bs, lane_eof := fin\<rparr>)
      in \<lparr>request = mk [104, 105] True, reply = mk [111] both, pump_result = None\<rparr>)"

lemma lane_sends_all:
  "lane_step\<^sup>*\<^sup>* fresh_lane (fresh_lane\<lparr>lane_sent := bs, lane_in := bs, lane_eof := fin\<rparr>)"
proof -
  let ?l = "fresh_lane\<lparr>lane_sent := bs, lane_in := bs\<rparr>"
  have "lane_step fresh_lane ?l"
    using sends [of fresh_lane bs] by (simp add: fresh_lane_def)
  moreover have "lane_step ?l (?l\<lparr>lane_eof := True\<rparr>)" by (rule finishes)
  moreover have "?l\<lparr>lane_eof := False\<rparr> = ?l" by (simp add: fresh_lane_def)
  ultimately show ?thesis by (cases fin) auto
qed

lemma demo_pump_reached: "(pump_step bps)\<^sup>*\<^sup>* fresh_pump (demo_pump both)"
proof -
  define l where "l = (\<lambda>bs fin. fresh_lane\<lparr>lane_sent := bs, lane_in := bs, lane_eof := fin\<rparr>)"
  have runs: "lane_step\<^sup>*\<^sup>* fresh_lane (l bs fin)" for bs fin
    unfolding l_def by (rule lane_sends_all)
  have "(pump_step bps)\<^sup>*\<^sup>* fresh_pump (fresh_pump\<lparr>request := l [104, 105] True\<rparr>)"
    using runs by (rule lane_steps_lift) (simp add: fresh_pump_def)
  moreover have "(pump_step bps)\<^sup>*\<^sup>* (fresh_pump\<lparr>request := l [104, 105] True\<rparr>)
      (fresh_pump\<lparr>request := l [104, 105] True, reply := l [111] both\<rparr>)"
    using runs by (rule lane_steps_lift) (simp add: fresh_pump_def)
  ultimately have "(pump_step bps)\<^sup>*\<^sup>* fresh_pump (fresh_pump\<lparr>request := l [104, 105] True, reply := l [111] both\<rparr>)"
    by (rule rtranclp_trans)
  then show ?thesis by (simp add: demo_pump_def fresh_pump_def l_def)
qed

section \<open>Properties\<close>

text \<open>
  C29. The end of a relayed stream means that all of it has arrived. Whenever the relay has shut down
  one of the two streams, it has written both peers everything the other one sent, in order, both
  peers had finished, and it reports the two numbers of bytes. A stream that ends otherwise, by being
  dropped, does so after a copy failed, whose error is reported; what each peer has received is at
  all times a beginning of what the other one sent. From every state in which both peers have
  finished and no copy has failed, whatever has been copied so far, the end with everything
  delivered can be reached.
\<close>

theorem relay_end_means_delivered:
  assumes "(pump_step bps)\<^sup>*\<^sup>* fresh_pump p"
  shows "(lane_fin (request p) \<or> lane_fin (reply p) \<longrightarrow>
      lane_out (request p) = lane_sent (request p) \<and> lane_out (reply p) = lane_sent (reply p) \<and>
      lane_eof (request p) \<and> lane_eof (reply p) \<and>
      pump_result p = Some (Inr (of_nat (length (lane_sent (request p))), of_nat (length (lane_sent (reply p))))))
    \<and> (lane_dropped (request p) \<or> lane_dropped (reply p) \<longrightarrow>
      (\<exists>e. pump_result p = Some (Inl e) \<and> (lane_copy (request p) = Ended (Inl e) \<or> lane_copy (reply p) = Ended (Inl e))))
    \<and> prefix (lane_out (request p)) (lane_sent (request p)) \<and> prefix (lane_out (reply p)) (lane_sent (reply p))
    \<and> (lane_eof (request p) \<and> lane_eof (reply p) \<and>
        (\<forall>e. lane_copy (request p) \<noteq> Ended (Inl e) \<and> lane_copy (reply p) \<noteq> Ended (Inl e)) \<longrightarrow>
      (\<exists>p'. (pump_step bps)\<^sup>*\<^sup>* p p' \<and> lane_fin (request p') \<and> lane_fin (reply p') \<and>
        lane_out (request p') = lane_sent (request p) \<and> lane_out (reply p') = lane_sent (reply p)))"
proof -
  have ok: "pump_ok p" by (rule pump_steps_ok [OF assms fresh_pump_ok])
  have "\<exists>p'. (pump_step bps)\<^sup>*\<^sup>* p p' \<and> lane_fin (request p') \<and> lane_fin (reply p') \<and>
      lane_out (request p') = lane_sent (request p) \<and> lane_out (reply p') = lane_sent (reply p)"
    if "lane_eof (request p)" "lane_eof (reply p)"
      "\<forall>e. lane_copy (request p) \<noteq> Ended (Inl e) \<and> lane_copy (reply p) \<noteq> Ended (Inl e)"
  proof (cases "pump_result p")
    case None
    have "\<not> failed (request p)" "\<not> failed (reply p)"
      using that(3) by (simp_all add: failed_def)
    from pump_completes [OF ok None this(1) that(1) this(2) that(2)] show ?thesis
      using pump_ok_fin [OF pump_steps_ok [OF _ ok]] by metis
  next
    case (Some res)
    with ok that(3) have "lane_fin (request p)" "lane_fin (reply p)"
      by (auto simp: pump_ok_def split: sum.splits)
    with pump_ok_fin [OF ok] show ?thesis by blast
  qed
  moreover have "lane_ok (request p)" "lane_ok (reply p)"
    using ok by (simp_all add: pump_ok_def)
  ultimately show ?thesis
    using pump_ok_fin [OF ok] pump_ok_dropped [OF ok] lane_ok_prefix by blast
qed

theorem relay_end_means_delivered_witness:
  "\<exists>p'. (pump_step None)\<^sup>*\<^sup>* (demo_pump True) p' \<and> lane_fin (request p') \<and>
     lane_out (request p') = [104, 105] \<and> lane_out (reply p') = [111]"
proof -
  have "lane_eof (request (demo_pump True))" "lane_eof (reply (demo_pump True))"
    "\<forall>e. lane_copy (request (demo_pump True)) \<noteq> Ended (Inl e) \<and> lane_copy (reply (demo_pump True)) \<noteq> Ended (Inl e)"
    "lane_sent (request (demo_pump True)) = [104, 105]" "lane_sent (reply (demo_pump True)) = [111]"
    by (simp_all add: demo_pump_def fresh_lane_def)
  then show ?thesis
    using relay_end_means_delivered [OF demo_pump_reached [of None True]] by metis
qed



end
