(* ===== verification/Spec2Isabelle.thy ===== *)
theory Spec2Isabelle
  imports Exchange Keepalive Client_Main Static_Session Static_Listing Relay_Pump
begin

text \<open>
  A verification of \<^verbatim>\<open>meshly-core\<close>, a peer-to-peer tunnel for TCP services written in Rust
  (\<^verbatim>\<open>src/crates\<close>).

  \<^bold>\<open>The program.\<close> A server (\<^verbatim>\<open>crates/server\<close>) keeps a registry of groups. Clients
  (\<^verbatim>\<open>crates/client\<close>) connect to its control plane, present a group's token, register the services
  they expose and ask for the provider of the services they consume. A consumer then dials the
  provider directly, or through the server's relay, proves that it knows the service's secret,
  and the two sides copy bytes; a client can also serve a directory over HTTP. \<^verbatim>\<open>crates/common\<close>
  holds the frame protocol, the names, the configuration, the identity and the byte bridge.

  \<^bold>\<open>Which theory models what.\<close> Definitions carry the names of the code; a prefix or suffix is
  added where a name is taken.

  \<^item> \<open>Prelude\<close>: machine integers, byte strings, results and panics as values, UTF-8.
  \<^item> \<open>Hashmap\<close>: \<open>HashMap\<close> and \<open>DashMap\<close> as lists of entries; the interface is the locale
    \<open>hash_map\<close>, interpreted as \<open>hm\<close>. The order of the entries stands for the iteration order,
    which the code does not control and which only \<open>authenticate\<close> with equal tokens, the
    relay's lookup across groups and the printed lists can observe.
  \<^item> \<open>Alpn\<close>, \<open>Protocol\<close>, \<open>Endpoint_Id\<close>, \<open>Config\<close>, \<open>Identity\<close>: \<^verbatim>\<open>alpn.rs\<close>, \<^verbatim>\<open>protocol.rs\<close>,
    \<^verbatim>\<open>endpoint.rs\<close>, \<^verbatim>\<open>config.rs\<close>, \<^verbatim>\<open>identity.rs\<close> of \<^verbatim>\<open>common\<close>. A frame is read from a \<open>reader\<close>
    (bytes and how the stream ends) and written to a \<open>writer\<close> (what was written and how much the
    peer still takes). Sending and receiving is the locale \<open>framed_stream\<close>, interpreted as \<open>fs\<close>.
  \<^item> \<open>Auth\<close>: the HMAC proof and both sides of the handshake (\<^verbatim>\<open>protocol.rs\<close>, \<^verbatim>\<open>expose.rs\<close>,
    \<^verbatim>\<open>static_http.rs\<close>, \<^verbatim>\<open>consume.rs\<close>); locale \<open>challenge_response\<close>, interpreted as \<open>cr\<close>. A handler that
    starts with the handshake is the locale \<open>guarded_handler\<close>, interpreted for the two kinds of
    service (\<open>exposed\<close>, \<open>static\<close>).
  \<^item> \<open>Tunnel\<close>: \<^verbatim>\<open>tunnel.rs\<close> of \<^verbatim>\<open>common\<close>. The traits \<open>AsyncRead\<close> and \<open>AsyncWrite\<close> are the locales
    \<open>async_read\<close> and \<open>async_write\<close>; \<open>BiStream\<close> makes a \<open>byte_stream\<close> of any two halves
    (\<open>stream_halves\<close>, interpreted as \<open>rw\<close>).
  \<^item> \<open>Registry\<close>: \<^verbatim>\<open>server/registry.rs\<close>. A group implements the locale \<open>service_directory\<close>
    (interpretation \<open>dir\<close>), which is specified by the history of its operations. An
    \<open>Arc<AtomicU64>\<close> is an index into the list of cells.
  \<^item> \<open>Control\<close>, \<open>Relay\<close>, \<open>Ratelimit\<close>, \<open>Server_Main\<close>: the server's \<^verbatim>\<open>control.rs\<close>, \<^verbatim>\<open>relay.rs\<close>,
    \<^verbatim>\<open>ratelimit.rs\<close> and \<^verbatim>\<open>main.rs\<close>. \<open>Server_System\<close> is the server as a transition system:
    any number of connections, the sweeper and the relay tasks interleave on one registry.
    \<open>Relay_Pump\<close> is one open tunnel of the relay as a transition system, and \<open>Keepalive\<close> runs the
    heartbeats of a client against the sweeper.
  \<^item> \<open>Status\<close>, \<open>Consume\<close>, \<open>Expose\<close>, \<open>Static_Http\<close>, \<open>Client_Main\<close>: the client's \<^verbatim>\<open>status.rs\<close>,
    \<^verbatim>\<open>consume.rs\<close>, \<^verbatim>\<open>expose.rs\<close>, \<^verbatim>\<open>static_http.rs\<close> and \<^verbatim>\<open>main.rs\<close>. The tasks that \<^verbatim>\<open>main.rs\<close>
    spawns are \<open>Registration\<close> (registering, heartbeats, retries) and \<open>Consumer_System\<close> (\<open>run\<close> of
    \<^verbatim>\<open>consume.rs\<close>: the tasks of all local connections interleave). \<open>Static_Framing\<close> shows how the
    responses of the static server are delimited, \<open>Static_Session\<close> runs a whole session of it, and
    \<open>Static_Listing\<close> is about the order and the links of a directory listing (locale \<open>stable_sort\<close>,
    interpreted as \<open>rows\<close>).
    \<open>Environment\<close> is what both programs find around them at start-up.
  \<^item> \<open>Connected\<close> joins the two ends of a stream, \<open>Exchange\<close> a client's streams with the server's, for
    the properties below.

  \<^bold>\<open>What is shown.\<close> Frames: round trips, the type of every frame that is read, the exact inputs on
  which the decoder panics. Access: only holders of a group's token become visible in it, a session
  changes only its group and there exactly what its commands ask for, a peer without a valid proof gets no service, a
  stream is relayed only to the registered provider and for the peer that opened it, a static
  response comes from the canonical path of the request, which is inside the served directory. State: the invariant of the registry over every run,
  the meaning of a group's history, what a dropped session, a closed connection, a failed reply and a
  sweep remove or leave, the life of a rate cell, what the interleaved tasks of a consumer share, what the status says of the registration.
  Time: a healthy client survives every sweep with the default settings, a silent one is gone after
  the timeout and one period, the status wait ends. Rate limiting: the cap, completion, and the
  reads that can never pass. Programs: what a
  server and a client start with, field by field, and which configurations that load do not start.
  Client: the retry delays, which failures replace the cached provider, the stability of the
  identity. Static server: a request line is read the
  same way however the stream is cut, a client's requests are answered in order, every response
  can be told from what follows it, and a listing has one row for every entry, in order. Relay: what the end of a
  relayed stream means, and that it withholds a half-close. End to end: a
  subscription returns what the registry holds, a registration makes every service resolvable, a
  client of the same group then finds it and one of another group does not, a relayed dial reaches
  the provider and authenticates there, and the bytes of a local socket arrive at the backend and
  back, unchanged.
  Several properties describe what the code does where a comment promises something else; the
  manifest lists them as findings.

  \<^bold>\<open>Parameters.\<close> Libraries are arguments: the JSON codec (\<open>json_codec\<close>; statements that need a round
  trip assume \<open>json_codec_ok\<close>, and \<open>marked_codec\<close> is an instance), HMAC-SHA256 (at most that it
  has 32 bytes),
  the endpoint ids of iroh and hex (\<open>id_codec\<close>; \<open>id_codec_ok\<close> says that a printed id parses, and
  \<open>unary_ids\<close> is an instance), \<open>copy_bidirectional\<close> of tokio
  (\<open>copies_both_ways\<close> is its documented contract, \<open>whole_copy\<close> an instance), the TOML parser, the file
  system, the clock and the random values.

  \<^bold>\<open>Bounds and fuel.\<close> No definition has a counter as fuel. A loop over events of the outside world
  takes the list of those events (streams of a connection, clock readings of a waiting writer,
  attempts of the retry loop, polls of the status); when the list runs out the result says that
  the loop is still running (\<open>Asleep\<close>, \<open>StillTrying\<close>, \<open>None\<close>), and the properties that promise a
  result show how long a list is enough. The request loop of the static server is total because
  every request consumes input. Integers keep their width: stream ids, byte counts and delays are
  64-bit words that wrap around as in a release build, lengths on the wire are 16 bits. The
  \<open>f64\<close> arithmetic of the token bucket is done in rational numbers, without rounding.

  \<^bold>\<open>Not modelled.\<close> The parser of the command line, logging and the text of printed JSON (the values
  that are printed are modelled); binding the endpoint, the router's dispatch, connection set-up
  and flow control of QUIC; the scheduling of tokio tasks below one step of the transition systems
  (in particular a panic ends one task only, and dropping a session or sweeping is one step); the
  copy loops inside \<open>tokio::io\<close>, which are given by their contract or outcome; the Windows variants of
  the permission functions; the tests.
\<close>

section \<open>Subscribing to a service\<close>

text \<open>
  C2. A subscription works end to end. When the client runs \<open>subscribe\<close> with a group's token, each
  side reading what the other wrote, the server accepts the \<open>Hello\<close>, answers the \<open>Subscribe\<close>, and the
  client returns the provider that the registry holds for the service in that group, or the
  error that there is none. The session then ends cleanly, which takes with it every service that
  the same client had registered in the group, and nothing else in any group.
\<close>

theorem subscribe_end_to_end:
  assumes "json_codec_ok js" and "id_codec_ok ir" and "registry_wf st"
    and "authenticate st token = Some g"
    and "list_all (sendable js) [Hello \<lparr>group_token = token, client_info = client_info_text version\<rparr>,
       HelloOk \<lparr>session_id = sid\<rparr>, Subscribe \<lparr>sub_service = service\<rparr>,
       subscribe_answer ir service (lookup_service st (g_name g) service)]"
  shows "\<exists>w1 w2 s1 s2 st'.
    subscribe_to js ir version token service (Some [client_end s1, client_end s2]) =
      (case lookup_service st (g_name g) service of Some p \<Rightarrow> Inr p | None \<Rightarrow> Inl (NoProvider service), [w1, w2]) \<and>
    run_session js ir me sid (Some (server_end start now w1)) [server_end start now w2] st = (Clean, st', [s1, s2]) \<and>
    (\<forall>n s. lookup_service st' n s =
       (if n = g_name g \<and> lookup_service st n s = Some me then None else lookup_service st n s))"
proof -
  obtain w1 w2 s1 s2 st' where
    "subscribe_to js ir version token service (Some [client_end s1, client_end s2]) =
      (case lookup_service st (g_name g) service of Some p \<Rightarrow> Inr p | None \<Rightarrow> Inl (NoProvider service), [w1, w2])"
    "run_session js ir me sid (Some (server_end start now w1)) [server_end start now w2] st = (Clean, st', [s1, s2])"
    "\<forall>m s. lookup_service st' m s =
      (if m = g_name g \<and> lookup_service st m s = Some me then None else lookup_service st m s)"
    using subscribe_exchange [OF assms] by metis
  then show ?thesis
    by fastforce
qed

theorem subscribe_end_to_end_witness:
  "\<exists>w1 w2 s1 s2 st'.
    subscribe_to marked_codec unary_ids ''1'' ''t1'' ''ssh'' (Some [client_end s1, client_end s2]) = (Inr 7, [w1, w2]) \<and>
    run_session marked_codec unary_ids 9 5 (Some (server_end 1 2 w1)) [server_end 1 2 w2] demo_state = (Clean, st', [s1, s2])"
proof -
  obtain g where g: "authenticate demo_state ''t1'' = Some g" "g_name g = ''a''"
    using demo_authenticate(2) by auto
  have l: "lookup_service demo_state (g_name g) ''ssh'' = Some 7"
    by (simp add: g lookup_service_def demo_state_group_a group_lookup_def)
  have "list_all (sendable marked_codec) [Hello \<lparr>group_token = ''t1'', client_info = client_info_text ''1''\<rparr>,
       HelloOk \<lparr>session_id = 5\<rparr>, Subscribe \<lparr>sub_service = ''ssh''\<rparr>,
       subscribe_answer unary_ids ''ssh'' (lookup_service demo_state (g_name g) ''ssh'')]"
    using sendable_marked_hello [of "''t1''" "client_info_text ''1''"] sendable_marked [of "''ssh''"]
      sendable_marked_answer [OF _ _ l]
    by (simp add: client_info_text_def sendable_marked_ok)
  from subscribe_end_to_end [OF marked_codec_ok unary_ids_ok demo_state_wf g(1) this, where me = 9 and start = 1 and now = 2] show ?thesis
    unfolding l by simp blast
qed

section \<open>Registering services\<close>

text \<open>
  C3. A registration works end to end. When the client runs \<open>register_with_server\<close> with a group's
  token, each side reading what the other wrote, it succeeds, and on the server the client then has
  a session and every exposed and static service of it resolves to it in that group, also where
  another client provided the name before; all other names, and all names in the other groups,
  resolve as they did. (The list of
  streams ends after the registrations; the connection stays open and its clean-up is not run.)
\<close>

theorem register_end_to_end:
  assumes "json_codec_ok js" and "registry_wf st" and "authenticate st token = Some g"
    and "sendable js (Hello \<lparr>group_token = token, client_info = info\<rparr>)"
    and "sendable js (HelloOk \<lparr>session_id = sid\<rparr>)"
    and "list_all (registrable js) (exposed @ statics)"
  shows "\<exists>w ws s ss st1 st2.
    register_with_server js token info exposed statics (Some (map client_end (s # ss))) = (Inr (), w # ws) \<and>
    hello_step js me sid (server_end start now w) st = (Open (g_name g), st1, s) \<and>
    serve_loop js ir (g_name g) me (map (server_end start now) ws) st1 = (Break, st2, ss) \<and>
    session_in st2 (g_name g) me \<and>
    (\<forall>n name. lookup_service st2 n name =
       (if n = g_name g \<and> name \<in> set exposed \<union> set statics then Some me else lookup_service st n name))"
proof -
  let ?st2 = "after_registering (g_name g) me start now (exposed @ statics) st"
  have g: "group_of st (g_name g) \<noteq> None"
    using authenticate_SomeD [OF assms(2,3)] by simp
  have "lookup_service ?st2 n name =
      (if n = g_name g \<and> name \<in> set exposed \<union> set statics then Some me else lookup_service st n name)" for n name
    using lookup_after_registering [OF assms(2) g assms(6)] by simp
  then show ?thesis
    using register_exchange [OF assms] session_after_registering [OF g] by metis
qed

theorem register_end_to_end_witness:
  "\<exists>w ws s ss st1 st2.
    register_with_server marked_codec ''t1'' ''x'' [''web''] [''docs''] (Some (map client_end (s # ss))) = (Inr (), w # ws) \<and>
    hello_step marked_codec 8 5 (server_end 1 2 w) demo_state = (Open ''a'', st1, s) \<and>
    serve_loop marked_codec unary_ids ''a'' 8 (map (server_end 1 2) ws) st1 = (Break, st2, ss) \<and>
    session_in st2 ''a'' 8 \<and>
    (\<forall>n name. lookup_service st2 n name =
       (if n = ''a'' \<and> name \<in> set [''web''] \<union> set [''docs''] then Some 8 else lookup_service demo_state n name))"
proof -
  obtain g where g: "authenticate demo_state ''t1'' = Some g" "g_name g = ''a''"
    using demo_authenticate(2) by auto
  have "sendable marked_codec (Hello \<lparr>group_token = ''t1'', client_info = ''x''\<rparr>)"
    "sendable marked_codec (HelloOk \<lparr>session_id = 5\<rparr>)"
    using sendable_marked_hello [of "''t1''" "''x''"] by (simp_all add: sendable_marked_ok)
  moreover have "list_all (registrable marked_codec) ([''web''] @ [''docs''])"
    by (simp add: registrable_def sendable_marked)
  ultimately show ?thesis
    using register_end_to_end [OF marked_codec_ok demo_state_wf g(1), where info = "''x''" and sid = 5
      and exposed = "[''web'']" and statics = "[''docs'']" and me = 8 and start = 1 and now = 2 and ir = unary_ids]
    unfolding g(2) by simp
qed

section \<open>Discovering a service\<close>

text \<open>
  C4. What one client registers, the others of its group find, and nobody else does. A provider
  runs \<open>register_with_server\<close> with a group's token, and on the registry this leaves, a second client
  runs \<open>subscribe\<close> with a token of its own. It gets the provider's id exactly when its token is of the
  same group and the service is one that was registered; otherwise the registration makes no
  difference to its answer. After the second client's session, unless it is the provider itself,
  all of the provider's services still resolve to it.
\<close>

theorem discovery_end_to_end:
  assumes "json_codec_ok js" and "id_codec_ok ir" and "registry_wf st"
    and "authenticate st token = Some g" and "authenticate st token' = Some g'"
    and "list_all (sendable js) [Hello \<lparr>group_token = token, client_info = info\<rparr>, HelloOk \<lparr>session_id = sid\<rparr>,
       Hello \<lparr>group_token = token', client_info = client_info_text version\<rparr>, HelloOk \<lparr>session_id = sid'\<rparr>,
       Subscribe \<lparr>sub_service = service\<rparr>, subscribe_answer ir service (Some provider),
       subscribe_answer ir service (lookup_service st (g_name g') service)]"
    and "list_all (registrable js) (exposed @ statics)"
  shows "\<exists>w ws s ss st1 st2 w1 w2 s1 s2 st3.
    register_with_server js token info exposed statics (Some (map client_end (s # ss))) = (Inr (), w # ws) \<and>
    hello_step js provider sid (server_end t0 t w) st = (Open (g_name g), st1, s) \<and>
    serve_loop js ir (g_name g) provider (map (server_end t0 t) ws) st1 = (Break, st2, ss) \<and>
    subscribe_to js ir version token' service (Some [client_end s1, client_end s2]) =
      (if g_name g' = g_name g \<and> service \<in> set exposed \<union> set statics then Inr provider
       else case lookup_service st (g_name g') service of Some p \<Rightarrow> Inr p | None \<Rightarrow> Inl (NoProvider service), [w1, w2]) \<and>
    run_session js ir consumer sid' (Some (server_end t0' t' w1)) [server_end t0' t' w2] st2 = (Clean, st3, [s1, s2]) \<and>
    (consumer \<noteq> provider \<longrightarrow>
      (\<forall>name\<in>set exposed \<union> set statics. lookup_service st3 (g_name g) name = Some provider))"
proof -
  let ?st2 = "after_registering (g_name g) provider t0 t (exposed @ statics) st"
  have g: "group_of st (g_name g) \<noteq> None"
    using authenticate_SomeD [OF assms(3,4)] by simp
  have l: "lookup_service ?st2 n name =
      (if n = g_name g \<and> name \<in> set exposed \<union> set statics then Some provider else lookup_service st n name)" for n name
    using lookup_after_registering [OF assms(3) g assms(7)] by simp
  have snd: "list_all (sendable js) [Hello \<lparr>group_token = token', client_info = client_info_text version\<rparr>,
      HelloOk \<lparr>session_id = sid'\<rparr>, Subscribe \<lparr>sub_service = service\<rparr>,
      subscribe_answer ir service (lookup_service ?st2 (g_name g') service)]"
    using assms(6) by (simp add: l)
  obtain w1 w2 s1 s2 st3 where sub:
    "subscribe_to js ir version token' service (Some [client_end s1, client_end s2]) =
      (case lookup_service ?st2 (g_name g') service of Some p \<Rightarrow> Inr p | None \<Rightarrow> Inl (NoProvider service), [w1, w2])"
    "run_session js ir consumer sid' (Some (server_end t0' t' w1)) [server_end t0' t' w2] ?st2 = (Clean, st3, [s1, s2])"
    "\<forall>m s. lookup_service st3 m s =
      (if m = g_name g' \<and> lookup_service ?st2 m s = Some consumer then None else lookup_service ?st2 m s)"
    by (rule subscribe_after_registering [OF assms(1,2,3,5) snd, where consumer = consumer and start = t0' and now = t'])
      blast
  have kept: "consumer \<noteq> provider \<longrightarrow>
      (\<forall>name\<in>set exposed \<union> set statics. lookup_service st3 (g_name g) name = Some provider)"
    by (auto simp: sub(3) l)
  obtain w ws s ss st1 where reg:
    "register_with_server js token info exposed statics (Some (map client_end (s # ss))) = (Inr (), w # ws)"
    "hello_step js provider sid (server_end t0 t w) st = (Open (g_name g), st1, s)"
    "serve_loop js ir (g_name g) provider (map (server_end t0 t) ws) st1 = (Break, ?st2, ss)"
    by (rule register_exchange [OF assms(1,3,4) _ _ assms(7), where info = info and sid = sid])
      (use assms(6) in \<open>simp_all\<close>)
  have "(case lookup_service ?st2 (g_name g') service of Some p \<Rightarrow> Inr p | None \<Rightarrow> Inl (NoProvider service)) =
      (if g_name g' = g_name g \<and> service \<in> set exposed \<union> set statics then Inr provider
       else case lookup_service st (g_name g') service of Some p \<Rightarrow> Inr p | None \<Rightarrow> Inl (NoProvider service))"
    by (auto simp: l)
  from reg sub(1) [unfolded this] sub(2) kept show ?thesis
    by blast
qed

theorem discovery_end_to_end_witness:
  "\<exists>w ws s ss st1 st2 w1 w2 s1 s2 st3.
    register_with_server marked_codec ''t1'' ''x'' [''web''] [''docs''] (Some (map client_end (s # ss))) = (Inr (), w # ws) \<and>
    hello_step marked_codec 8 5 (server_end 1 2 w) demo_state = (Open ''a'', st1, s) \<and>
    serve_loop marked_codec unary_ids ''a'' 8 (map (server_end 1 2) ws) st1 = (Break, st2, ss) \<and>
    subscribe_to marked_codec unary_ids ''1'' ''t2'' ''docs'' (Some [client_end s1, client_end s2]) =
      (Inl (NoProvider ''docs''), [w1, w2]) \<and>
    run_session marked_codec unary_ids 9 6 (Some (server_end 3 4 w1)) [server_end 3 4 w2] st2 = (Clean, st3, [s1, s2]) \<and>
    lookup_service st3 ''a'' ''docs'' = Some 8"
proof -
  obtain g g' where g: "authenticate demo_state ''t1'' = Some g" "g_name g = ''a''"
      and g': "authenticate demo_state ''t2'' = Some g'" "g_name g' = ''b''"
    by (simp add: authenticate_def demo_state_def)
  have l: "lookup_service demo_state ''b'' ''docs'' = None"
    by (simp add: lookup_service_def group_of_def demo_state_def group_lookup_def)
  have r: "list_all (registrable marked_codec) ([''web''] @ [''docs''])"
    by (simp add: registrable_def sendable_marked)
  have s: "list_all (sendable marked_codec) [Hello \<lparr>group_token = ''t1'', client_info = ''x''\<rparr>, HelloOk \<lparr>session_id = 5\<rparr>,
       Hello \<lparr>group_token = ''t2'', client_info = client_info_text ''1''\<rparr>, HelloOk \<lparr>session_id = 6\<rparr>,
       Subscribe \<lparr>sub_service = ''docs''\<rparr>, subscribe_answer unary_ids ''docs'' (Some 8),
       subscribe_answer unary_ids ''docs'' (lookup_service demo_state (g_name g') ''docs'')]"
    using sendable_marked_hello [of "''t1''" "''x''"] sendable_marked_hello [of "''t2''" "client_info_text ''1''"]
      sendable_marked [of "''docs''"] sendable_marked_answer [of "''docs''" "Some 8" 8] sendable_marked_no_answer [of "''docs''"]
    by (simp add: client_info_text_def sendable_marked_ok g' l)
  show ?thesis
    using discovery_end_to_end [OF marked_codec_ok unary_ids_ok demo_state_wf g(1) g'(1) s r, where consumer = 9
      and ?t0.0 = 1 and t = 2 and ?t0'.0 = 3 and t' = 4]
    unfolding g(2) g'(2) l by simp blast
qed

section \<open>Dialling through the relay\<close>

text \<open>
  C5. A dial through the relay works end to end. When the registry resolves the service to the
  provider, the server's relay accepts the stream on which the consumer runs \<open>dial_relay\<close>: it opens
  a task for that provider, and what it forwards of the consumer's bytes makes the provider's
  handshake end in \<open>Authenticated\<close>, while what the provider writes makes the consumer's dial
  succeed. No byte of the handshake is left over for the tunnel on either side.
\<close>

theorem relayed_dial_end_to_end:
  assumes "json_codec_ok js" and "id_codec_ok ir"
    and "lookup_service_any_group st (cs_name spec) = Some provider"
    and "sendable js (DataOpen (cs_name spec) (id_to_string ir provider) (id_to_string ir me) (replicate 32 0))"
    and "length n = 32" and "length (compute_proof hm (cs_shared_secret spec) (cs_name spec) n) = 32"
  shows "\<exists>cr cw pr pw task.
    dial_relay js hm ir me spec provider (\<lambda>alpn. if alpn = alpn_data then Some [client_end pw] else None) = Inr (cr, cw) \<and>
    relay_open js ir cap me (peer_reader cw) st = Inr task \<and>
    rt_provider task = provider \<and> rt_service task = cs_name spec \<and>
    provider_handshake js hm (cs_shared_secret spec) (cs_name spec) n (rt_reader task) idle_writer = (Authenticated, pr, pw) \<and>
    r_in cr = [] \<and> r_in pr = []"
proof -
  let ?name = "cs_name spec" and ?secret = "cs_shared_secret spec"
  let ?open = "DataOpen ?name (id_to_string ir provider) (id_to_string ir me) (replicate 32 0)"
  let ?proof = "AuthProof \<lparr>mac = compute_proof hm ?secret ?name n\<rparr>"
  let ?pw = "\<lparr>w_out = wire js (AuthNonce \<lparr>nonce = n\<rparr>) @ wire js AuthOk, w_budget = None\<rparr>"
  let ?cw = "\<lparr>w_out = wire js ?open @ wire js AuthHello @ wire js ?proof, w_budget = None\<rparr>"
  let ?task = "\<lparr>rt_initial_bps = initial_reply_bps cap me st, rt_provider = provider,
    rt_service = ?name, rt_reader = \<lparr>r_in = wire js AuthHello @ wire js ?proof, r_end = Eof\<rparr>\<rparr>"
  have "consumer_handshake js hm ?secret ?name (peer_reader ?pw) (sent js ?open) =
      (Inr (), \<lparr>r_in = [], r_end = Eof\<rparr>, ?cw)"
    using consumer_completes_after [OF assms(5,6), where w = "sent js ?open" and rest = "[]"]
    by (simp add: peer_reader_def sent_def)
  then have "dial_relay js hm ir me spec provider (\<lambda>alpn. if alpn = alpn_data then Some [client_end ?pw] else None) =
      Inr (\<lparr>r_in = [], r_end = Eof\<rparr>, ?cw)"
    by (simp add: dial_relay_def client_end_def write_idle [OF assms(4)] alpn_data_def ALPN_DATA_def)
  moreover have "relay_open js ir cap me (peer_reader ?cw) st = Inr ?task"
    using assms(3) read_sendable [OF assms(1,4), where e = Eof]
    by (simp add: relay_open_def peer_reader_def parse_to_string [OF assms(2)])
  moreover have "provider_handshake js hm ?secret ?name n (rt_reader ?task) idle_writer =
      (Authenticated, \<lparr>r_in = [], r_end = Eof\<rparr>, ?pw)"
    using provider_completes [OF assms(5,6), where rest = "[]"] by (simp add: idle_writer_def)
  ultimately show ?thesis
    by fastforce
qed

theorem relayed_dial_end_to_end_witness:
  "\<exists>cr cw pr pw task.
    dial_relay marked_codec (\<lambda>k m. replicate 32 (m ! 0)) unary_ids 9 \<lparr>cs_name = ''ssh'', cs_local_bind = [], cs_shared_secret = [9]\<rparr> 7
      (\<lambda>alpn. if alpn = alpn_data then Some [client_end pw] else None) = Inr (cr, cw) \<and>
    relay_open marked_codec unary_ids None 9 (peer_reader cw) demo_state = Inr task \<and> rt_provider task = 7 \<and>
    provider_handshake marked_codec (\<lambda>k m. replicate 32 (m ! 0)) [9] ''ssh'' (replicate 32 3)
      (rt_reader task) idle_writer = (Authenticated, pr, pw)"
proof -
  let ?spec = "\<lparr>cs_name = ''ssh'', cs_local_bind = [], cs_shared_secret = [9]\<rparr>"
  let ?hm = "\<lambda>k m :: bytes. replicate 32 (m ! 0)"
  have l: "lookup_service_any_group demo_state (cs_name ?spec) = Some 7"
    by (simp add: lookup_service_any_group_def dump_services_def demo_state_def)
  have s: "sendable marked_codec (DataOpen (cs_name ?spec) (id_to_string unary_ids 7) (id_to_string unary_ids 9) (replicate 32 0))"
    by (simp add: sendable_def unary_ids_def ascii_utf8 list_all_iff put_field_def U16_MAX_def MAX_FRAME_PAYLOAD_def)
  have n: "length (replicate 32 (3 :: u8)) = 32"
    "length (compute_proof ?hm (cs_shared_secret ?spec) (cs_name ?spec) (replicate 32 3)) = 32"
    by (simp_all add: compute_proof_def)
  show ?thesis
    using relayed_dial_end_to_end [OF marked_codec_ok unary_ids_ok l s n, where cap = None] by simp blast
qed

section \<open>Bytes through the tunnel\<close>

text \<open>
  C6. What goes into the tunnel comes out of it, and nothing else. A consumer has dialled a provider
  and bridges a local socket with the stream; the provider serves that stream and bridges it with
  its backend; each side reads what the other wrote. When both bridges end with success, the backend
  has received exactly the bytes of the local socket and the socket exactly those of the backend: no
  byte of the handshake leaks into the data and none of the data is taken for the handshake. Both
  sides report the same numbers of bytes. Assumed are the contract of \<open>copy_bidirectional\<close> and that
  an HMAC-SHA256 and a nonce have 32 bytes.
\<close>

theorem tunnel_delivers:
  assumes "copies_both_ways copy" and "\<forall>k m. length (hm k m) = 32" and "length n = 32"
    and "dial_direct js hm spec (\<lambda>alpn. Some [(\<lparr>r_in = w_out (writer_half ps), r_end = e\<rparr>, idle_writer)]) = Inr (cr, cw)"
    and "bridge_duplex copy tcp (bistream_new cr cw) = (Inr cst, tcp', cs)"
    and "expose_handle js hm secret name n copy (BackendUp be) \<lparr>r_in = w_out (writer_half cs), r_end = e'\<rparr> idle_writer =
      (Served pst, ps, Some be')"
  shows "w_out (writer_half be') = w_out (writer_half be) @ r_in (reader_half tcp)
    \<and> w_out (writer_half tcp') = w_out (writer_half tcp) @ r_in (reader_half be)
    \<and> a_to_b cst = b_to_a pst \<and> b_to_a cst = a_to_b pst
    \<and> a_to_b cst = of_nat (length (r_in (reader_half tcp))) \<and> b_to_a cst = of_nat (length (r_in (reader_half be)))"
proof -
  obtain rp wp where hp: "provider_handshake js hm secret name n \<lparr>r_in = w_out (writer_half cs), r_end = e'\<rparr> idle_writer =
      (Authenticated, rp, wp)" and bp: "bridge_duplex copy be (bistream_new rp wp) = (Inr pst, be', ps)"
    using assms(6) by (auto elim!: expose_served_cases)
  obtain u where hc: "consumer_handshake js hm (cs_shared_secret spec) (cs_name spec)
      \<lparr>r_in = w_out (writer_half ps), r_end = e\<rparr> idle_writer = (Inr u, cr, cw)"
    using assms(4) by (auto simp: dial_direct_def split: sum.splits prod.splits)
  obtain p1 p where p: "read_from js \<lparr>r_in = w_out (writer_half cs), r_end = e'\<rparr> = (Inr AuthHello, p1)"
      "read_from js p1 = (Inr (AuthProof p), rp)" "w_out wp = wire js (AuthNonce \<lparr>nonce = n\<rparr>) @ wire js AuthOk"
    using hp by (rule provider_authenticated_cases) (simp add: idle_writer_def)
  obtain c1 a where c: "read_from js \<lparr>r_in = w_out (writer_half ps), r_end = e\<rparr> = (Inr (AuthNonce a), c1)"
      "read_from js c1 = (Inr AuthOk, cr)"
      "w_out cw = wire js AuthHello @ wire js (AuthProof \<lparr>mac = compute_proof hm (cs_shared_secret spec) (cs_name spec) (nonce a)\<rparr>)"
    using hc by (rule consumer_authenticated_cases) (simp add: idle_writer_def)
  note bridges = bridge_copies [OF assms(1) assms(5)] bridge_copies [OF assms(1) bp]
  have "r_in rp = r_in (reader_half tcp)"
    using p c(3) bridges(1) assms(2) by (auto simp: bistream_new_def read_small_frames compute_proof_def)
  moreover have "r_in cr = r_in (reader_half be)"
    using c p(3) bridges(5) assms(3) by (auto simp: bistream_new_def read_small_frames)
  ultimately show ?thesis
    using bridges by (simp add: bistream_new_def)
qed

theorem tunnel_delivers_witness:
  "\<exists>st s b. expose_handle marked_codec (\<lambda>k m. replicate 32 (m ! 0)) [9] ''ssh'' (replicate 32 3) whole_copy
      (BackendUp (bistream_new \<lparr>r_in = [111, 107, 33], r_end = Eof\<rparr> idle_writer))
      \<lparr>r_in = wire marked_codec AuthHello @ wire marked_codec (AuthProof \<lparr>mac = replicate 32 115\<rparr>) @ [104, 105], r_end = Eof\<rparr>
      idle_writer = (Served st, s, Some b) \<and> w_out (writer_half b) = [104, 105] \<and> b_to_a st = 2 \<and> a_to_b st = 3"
proof -
  let ?hm = "\<lambda>k m :: bytes. replicate 32 (m ! 0)" and ?n = "replicate 32 (3 :: u8)"
  let ?spec = "\<lparr>cs_name = ''ssh'', cs_local_bind = '''', cs_shared_secret = [9]\<rparr>"
  let ?tcp = "bistream_new \<lparr>r_in = [104, 105], r_end = Eof\<rparr> idle_writer"
  let ?be = "bistream_new \<lparr>r_in = [111, 107, 33], r_end = Eof\<rparr> idle_writer"
  let ?up = "wire marked_codec AuthHello @ wire marked_codec (AuthProof \<lparr>mac = replicate 32 115\<rparr>)"
  let ?down = "wire marked_codec (AuthNonce \<lparr>nonce = ?n\<rparr>) @ wire marked_codec AuthOk"
  have p: "compute_proof ?hm [9] ''ssh'' ?n = replicate 32 115"
    by (simp add: compute_proof_def as_bytes_def)
  then have l: "length ?n = 32" "length (compute_proof ?hm [9] ''ssh'' ?n) = 32" by simp_all
  define ps where "ps = bistream_new \<lparr>r_in = [], r_end = Eof\<rparr> \<lparr>w_out = ?down @ [111, 107, 33], w_budget = None\<rparr>"
  define cs where "cs = bistream_new \<lparr>r_in = [], r_end = Eof\<rparr> \<lparr>w_out = ?up @ [104, 105], w_budget = None\<rparr>"
  note defs = ps_def cs_def p bistream_new_def idle_writer_def bridge_duplex_def bridge_def whole_copy_def
    bistream_poll_shutdown_def on_writer_def writer_poll_done_def
  have alpn: "alpn_for_service ''ssh'' = Inr (as_bytes ''meshly-core/ssh'')"
    by code_simp
  have d: "dial_direct marked_codec ?hm ?spec (\<lambda>alpn. Some [(\<lparr>r_in = w_out (writer_half ps), r_end = Eof\<rparr>, idle_writer)]) =
      Inr (\<lparr>r_in = [111, 107, 33], r_end = Eof\<rparr>, \<lparr>w_out = ?up, w_budget = None\<rparr>)"
    using consumer_completes [OF l, of marked_codec "[111, 107, 33]" Eof]
    by (simp add: dial_direct_def defs alpn)
  obtain cst tcp' where b: "bridge_duplex whole_copy ?tcp
      (bistream_new \<lparr>r_in = [111, 107, 33], r_end = Eof\<rparr> \<lparr>w_out = ?up, w_budget = None\<rparr>) = (Inr cst, tcp', cs)"
    by (simp add: defs)
  obtain st b where x: "expose_handle marked_codec ?hm [9] ''ssh'' ?n whole_copy (BackendUp ?be)
      \<lparr>r_in = w_out (writer_half cs), r_end = Eof\<rparr> idle_writer = (Served st, ps, Some b)"
    using provider_completes [OF l, of marked_codec "[104, 105]" Eof]
    by (simp add: expose_handle_def defs)
  show ?thesis
    using tunnel_delivers [OF whole_copy_ok _ l(1) d b x] x
    by (auto simp: cs_def bistream_new_def idle_writer_def)
qed

section \<open>Peers without the secret\<close>

text \<open>
  C8. Without a valid proof a peer gets nothing from either kind of service. Unless the first two
  frames of the stream are \<open>AuthHello\<close> and an \<open>AuthProof\<close> with the HMAC of this service's name and this
  handshake's nonce under this service's secret, the provider of a TCP service never connects its
  backend, the static server reads no request, and both have written at most the nonce and the
  rejection.
\<close>

theorem no_proof_no_service:
  assumes "w_budget w = None" and "length n = 32"
  shows "(\<not> proves js hm secret name n r \<longrightarrow>
      (\<exists>out s x. expose_handle js hm secret name n copy be r w = (out, s, None) \<and> out = NotServed x \<and>
        (\<exists>bs\<in>refusals js n. w_out (writer_half s) = w_out w @ bs)))
    \<and> (\<not> proves js hm (ss_shared_secret spec) (ss_name spec) n r \<longrightarrow>
      (\<exists>w' x. static_handle js hm fs spec n buffered r w = (StaticRefused x, w') \<and>
        (\<exists>bs\<in>refusals js n. w_out w' = w_out w @ bs)))"
  using exposed.nothing_without_proof [OF _ assms, of js hm secret name r copy be]
    static.nothing_without_proof [OF _ assms, of js hm spec r fs buffered]
  by (cases "expose_handle js hm secret name n copy be r w"; cases "static_handle js hm fs spec n buffered r w") auto

theorem no_proof_no_service_witness:
  "\<exists>s x. expose_handle marked_codec (\<lambda>k m. replicate 32 7) [9] ''ssh'' (replicate 32 3) whole_copy
      (BackendUp (bistream_new \<lparr>r_in = [115], r_end = Eof\<rparr> idle_writer))
      \<lparr>r_in = wire marked_codec AuthHello @ wire marked_codec (AuthProof \<lparr>mac = replicate 32 0\<rparr>), r_end = Eof\<rparr> idle_writer =
    (NotServed x, s, None) \<and> (\<exists>bs\<in>refusals marked_codec (replicate 32 3). w_out (writer_half s) = bs)"
proof -
  have "\<not> proves marked_codec (\<lambda>k m. replicate 32 7) [9] ''ssh'' (replicate 32 3)
      \<lparr>r_in = wire marked_codec AuthHello @ wire marked_codec (AuthProof \<lparr>mac = replicate 32 0\<rparr>), r_end = Eof\<rparr>"
    using read_small_frames(4) [of "\<lparr>mac = replicate 32 0\<rparr>" marked_codec "[]" Eof]
    by (simp add: proves_def read_small_frames compute_proof_def)
  moreover have "w_budget idle_writer = None" "w_out idle_writer = []" "length (replicate 32 (3 :: u8)) = 32"
    by (simp_all add: idle_writer_def)
  ultimately show ?thesis
    using no_proof_no_service [of idle_writer "replicate 32 3" marked_codec "\<lambda>k m. replicate 32 7" "[9]" "''ssh''"]
    by fastforce
qed

end
